theory Spec2Isabelle
  imports Main
begin

section \<open>Values of the program\<close>

text \<open>
  The model follows \<^verbatim>\<open>board.ts\<close>. A piece is an object with a fixed type and colour.
  The program compares pieces by reference (\<^verbatim>\<open>piece === this\<close>); the field \<open>ident\<close>
  stands for the identity of the object (the serial number of its allocation), so that
  equality of \<open>piece\<close> values is equality of references: \<^verbatim>\<open>new\<close> never hands out
  the same identity twice, and the two other fields are never assigned after construction.
\<close>

datatype piece_type = Pawn | Rook | Knight | Bishop | Queen | King

datatype color = Black | White

record piece =
  ident :: nat
  ptype :: piece_type
  color :: color

text \<open>The values a grid cell or a lookup can hold: \<^verbatim>\<open>undefined\<close>, \<^verbatim>\<open>null\<close> or a piece.\<close>

datatype jsval = Undefined | Null | Obj piece

text \<open>
  The exceptions of the program: the \<^verbatim>\<open>TypeError\<close> that JavaScript raises when a property
  of \<^verbatim>\<open>undefined\<close> is read or written, \<^verbatim>\<open>Error('Piece not found on board.')\<close> and
  \<^verbatim>\<open>Error('Invalid piece type.')\<close>.
\<close>

datatype error = TypeError | PieceNotFound | InvalidPieceType

record position =
  row :: int
  column :: int

definition COLUMNS :: "char list" where
  "COLUMNS = ''abcdefgh''"

definition ROWS :: "int list" where
  "ROWS = [8, 7, 6, 5, 4, 3, 2, 1]"

definition BLACK_PIECE_ROW :: int where "BLACK_PIECE_ROW = 0"
definition BLACK_PAWN_ROW :: int where "BLACK_PAWN_ROW = 1"
definition WHITE_PAWN_ROW :: int where "WHITE_PAWN_ROW = 6"
definition WHITE_PIECE_ROW :: int where "WHITE_PIECE_ROW = 7"

section \<open>JavaScript arrays and strings\<close>

text \<open>\<^verbatim>\<open>xs.indexOf(x)\<close>: the first index holding \<open>x\<close>, or \<open>-1\<close>.\<close>

fun indexOf :: "'a list \<Rightarrow> 'a \<Rightarrow> int" where
  "indexOf [] x = - 1"
| "indexOf (y # ys) x =
     (if y = x then 0 else (let i = indexOf ys x in if i < 0 then - 1 else i + 1))"

text \<open>\<^verbatim>\<open>xs[i]\<close> on an array that is only read: \<^verbatim>\<open>undefined\<close> (here \<open>None\<close>) out of range.\<close>

definition array_index :: "'a list \<Rightarrow> int \<Rightarrow> 'a option" where
  "array_index xs i = (if 0 \<le> i \<and> i < int (length xs) then Some (xs ! nat i) else None)"

text \<open>\<^verbatim>\<open>s[i]\<close> on a string: the one-character string at \<open>i\<close>, or \<^verbatim>\<open>undefined\<close>.\<close>

definition charAt :: "string \<Rightarrow> nat \<Rightarrow> char option" where
  "charAt s i = (if i < length s then Some (s ! i) else None)"

text \<open>
  \<^verbatim>\<open>Number(x)\<close> where \<open>x\<close> is \<^verbatim>\<open>undefined\<close> or a string of one character: a decimal
  digit is its value, white space is \<open>0\<close> (the string is trimmed and the empty string
  converts to \<open>0\<close>), anything else and \<^verbatim>\<open>undefined\<close> are \<^verbatim>\<open>NaN\<close> (here \<open>None\<close>).
  Characters are the code units below 256.
\<close>

definition isWhiteSpace :: "char \<Rightarrow> bool" where
  "isWhiteSpace c = ((of_char c :: nat) \<in> {9, 10, 11, 12, 13, 32, 160})"

definition Number :: "char option \<Rightarrow> int option" where
  "Number x =
     (case x of
        None \<Rightarrow> None
      | Some c \<Rightarrow>
          (if 48 \<le> (of_char c :: nat) \<and> (of_char c :: nat) \<le> 57
           then Some (int (of_char c) - 48)
           else if isWhiteSpace c then Some 0 else None))"

text \<open>The decimal text of a number, as a template literal prints it.\<close>

fun digits :: "nat \<Rightarrow> string" where
  "digits n =
     (if n < 10 then [char_of (48 + n)] else digits (n div 10) @ [char_of (48 + n mod 10)])"

definition Number_toString :: "int \<Rightarrow> string" where
  "Number_toString n = (if n < 0 then CHR ''-'' # digits (nat (- n)) else digits (nat n))"

section \<open>Position\<close>

text \<open>
  \<^verbatim>\<open>Position.fromString\<close>: \<^verbatim>\<open>COLUMNS.indexOf(position[0])\<close> and
  \<^verbatim>\<open>ROWS.indexOf(Number(position[1]))\<close>. \<^verbatim>\<open>indexOf\<close> compares strictly, so
  \<^verbatim>\<open>undefined\<close> and \<^verbatim>\<open>NaN\<close> are never found.
\<close>

definition fromString :: "string \<Rightarrow> position" where
  "fromString s =
     (let column = (case charAt s 0 of None \<Rightarrow> - 1 | Some c \<Rightarrow> indexOf COLUMNS c);
          row = (case Number (charAt s 1) of None \<Rightarrow> - 1 | Some n \<Rightarrow> indexOf ROWS n)
      in \<lparr>row = row, column = column\<rparr>)"

text \<open>\<^verbatim>\<open>`${COLUMNS[this.column]}${ROWS[this.row]}`\<close>: a missing entry prints as \<^verbatim>\<open>undefined\<close>.\<close>

definition toString :: "position \<Rightarrow> string" where
  "toString p =
     (case array_index COLUMNS (column p) of None \<Rightarrow> ''undefined'' | Some c \<Rightarrow> [c]) @
     (case array_index ROWS (row p) of None \<Rightarrow> ''undefined'' | Some n \<Rightarrow> Number_toString n)"

definition addOffset :: "position \<Rightarrow> int \<Rightarrow> int \<Rightarrow> position" where
  "addOffset p rowOffset columnOffset =
     \<lparr>row = row p + rowOffset, column = column p + columnOffset\<rparr>"

definition isOnBoard :: "position \<Rightarrow> bool" where
  "isOnBoard p = (row p \<ge> 0 \<and> row p \<le> 7 \<and> column p \<ge> 0 \<and> column p \<le> 7)"

section \<open>The grid\<close>

text \<open>
  A row of the grid is a JavaScript array: its elements (\<open>elems\<close>, what \<^verbatim>\<open>for ... of\<close> and
  \<^verbatim>\<open>indexOf\<close> see) and the properties that are not elements (\<open>named\<close>: a write under a
  negative key such as \<^verbatim>\<open>row[-1] = x\<close> creates one). Reading what was never written gives
  \<^verbatim>\<open>undefined\<close>; writing beyond the end extends the array, the gap reading as
  \<^verbatim>\<open>undefined\<close>. The indices are the integers the program computes, sums of small
  integers: no fraction and nothing near the largest array index.
\<close>

record jsarray =
  elems :: "jsval list"
  named :: "(int \<times> jsval) list"

definition array_get :: "jsarray \<Rightarrow> int \<Rightarrow> jsval" where
  "array_get a i =
     (if 0 \<le> i then (if i < int (length (elems a)) then elems a ! nat i else Undefined)
      else (case map_of (named a) i of None \<Rightarrow> Undefined | Some v \<Rightarrow> v))"

definition array_set :: "jsarray \<Rightarrow> int \<Rightarrow> jsval \<Rightarrow> jsarray" where
  "array_set a i v =
     (if 0 \<le> i then
        (if i < int (length (elems a)) then a\<lparr>elems := (elems a)[nat i := v]\<rparr>
         else a\<lparr>elems := elems a @ replicate (nat i - length (elems a)) Undefined @ [v]\<rparr>)
      else a\<lparr>named := (i, v) # named a\<rparr>)"

text \<open>\<^verbatim>\<open>Array(n).fill(v)\<close>.\<close>

definition Array_fill :: "nat \<Rightarrow> jsval \<Rightarrow> jsarray" where
  "Array_fill n v = \<lparr>elems = replicate n v, named = []\<rparr>"

text \<open>
  The board. Its rows are distinct array objects (\<^verbatim>\<open>initialize\<close> builds each with its own
  \<^verbatim>\<open>Array(8)\<close>, and nothing in the program stores a row anywhere else), so the list of rows
  is the whole state and \<^verbatim>\<open>grid.indexOf(row)\<close> on the row being visited is its index.
  The outer array is only ever read by index.
\<close>

record board =
  grid :: "jsarray list"

text \<open>The parameter type \<^verbatim>\<open>Position | string\<close> and the conversion both methods start with.\<close>

datatype position_or_string = AtPosition position | AtString string

fun toPosition :: "position_or_string \<Rightarrow> position" where
  "toPosition (AtString s) = fromString s"
| "toPosition (AtPosition p) = p"

text \<open>
  \<^verbatim>\<open>this.grid[position.row][position.column]\<close>: a missing row is \<^verbatim>\<open>undefined\<close>, and reading
  a property of it raises \<^verbatim>\<open>TypeError\<close>; a missing column of a row that exists reads as
  \<^verbatim>\<open>undefined\<close>.
\<close>

definition getPieceAt :: "board \<Rightarrow> position_or_string \<Rightarrow> error + jsval" where
  "getPieceAt b arg =
     (let position = toPosition arg
      in case array_index (grid b) (row position) of
           None \<Rightarrow> Inl TypeError
         | Some r \<Rightarrow> Inr (array_get r (column position)))"

text \<open>The assignment \<^verbatim>\<open>this.grid[r][c] = v\<close>.\<close>

definition put :: "board \<Rightarrow> int \<Rightarrow> int \<Rightarrow> jsval \<Rightarrow> error + board" where
  "put b r c v =
     (case array_index (grid b) r of
        None \<Rightarrow> Inl TypeError
      | Some a \<Rightarrow> Inr (b\<lparr>grid := (grid b)[nat r := array_set a c v]\<rparr>))"

text \<open>
  \<^verbatim>\<open>createPiece\<close> allocates a new object; the second argument and result thread the number
  of pieces allocated so far. The \<^verbatim>\<open>default\<close> branch of its \<^verbatim>\<open>switch\<close> (which throws
  \<^verbatim>\<open>Error('Invalid piece type.')\<close>) has no value of the parameter's type to reach it.
\<close>

definition createPiece :: "piece_type \<Rightarrow> color \<Rightarrow> nat \<Rightarrow> piece \<times> nat" where
  "createPiece t c n = (\<lparr>ident = n, ptype = t, color = c\<rparr>, Suc n)"

definition pieceOrder :: "piece_type list" where
  "pieceOrder = [Rook, Knight, Bishop, Queen, King, Bishop, Knight, Rook]"

text \<open>The loop \<^verbatim>\<open>for (let column of COLUMNS)\<close> of \<^verbatim>\<open>initialize\<close>.\<close>

fun placePawns :: "char list \<Rightarrow> board \<Rightarrow> nat \<Rightarrow> error + board \<times> nat" where
  "placePawns [] b n = Inr (b, n)"
| "placePawns (letter # rest) b n =
     (let i = indexOf COLUMNS letter;
          (p, n1) = createPiece Pawn Black n
      in case put b BLACK_PAWN_ROW i (Obj p) of
           Inl e \<Rightarrow> Inl e
         | Inr b1 \<Rightarrow>
             (let (q, n2) = createPiece Pawn White n1
              in case put b1 WHITE_PAWN_ROW i (Obj q) of
                   Inl e \<Rightarrow> Inl e
                 | Inr b2 \<Rightarrow> placePawns rest b2 n2))"

text \<open>The loop \<^verbatim>\<open>for (let i = 0; i < 8; i++)\<close> of \<^verbatim>\<open>initialize\<close>, over the values of \<open>i\<close>.\<close>

fun placePieces :: "nat list \<Rightarrow> board \<Rightarrow> nat \<Rightarrow> error + board \<times> nat" where
  "placePieces [] b n = Inr (b, n)"
| "placePieces (i # rest) b n =
     (let t = pieceOrder ! i;
          (p, n1) = createPiece t Black n
      in case put b BLACK_PIECE_ROW (int i) (Obj p) of
           Inl e \<Rightarrow> Inl e
         | Inr b1 \<Rightarrow>
             (let (q, n2) = createPiece t White n1
              in case put b1 WHITE_PIECE_ROW (int i) (Obj q) of
                   Inl e \<Rightarrow> Inl e
                 | Inr b2 \<Rightarrow> placePieces rest b2 n2))"

definition initialize :: "board \<Rightarrow> nat \<Rightarrow> error + board \<times> nat" where
  "initialize b n =
     (let b0 = b\<lparr>grid := replicate 8 (Array_fill 8 Null)\<rparr>
      in case placePawns COLUMNS b0 n of
           Inl e \<Rightarrow> Inl e
         | Inr (b1, n1) \<Rightarrow> placePieces [0..<8] b1 n1)"

text \<open>The constructor: the field \<open>grid\<close> has no value before \<^verbatim>\<open>initialize\<close> assigns it.\<close>

definition Board_new :: "nat \<Rightarrow> error + board \<times> nat" where
  "Board_new n = initialize \<lparr>grid = []\<rparr> n"

section \<open>Piece\<close>

text \<open>
  \<^verbatim>\<open>getPosition\<close>: the inner loop over one row, with
  \<^verbatim>\<open>columnIndex = row.indexOf(piece)\<close> for the element that is \<^verbatim>\<open>this\<close>.
\<close>

definition findInRow :: "piece \<Rightarrow> jsarray \<Rightarrow> int option" where
  "findInRow this r =
     (case find (\<lambda>piece. piece = Obj this) (elems r) of
        None \<Rightarrow> None
      | Some piece \<Rightarrow> Some (indexOf (elems r) piece))"

fun findInRows :: "piece \<Rightarrow> jsarray list \<Rightarrow> int \<Rightarrow> position option" where
  "findInRows this [] rowIndex = None"
| "findInRows this (r # rest) rowIndex =
     (case findInRow this r of
        Some columnIndex \<Rightarrow> Some \<lparr>row = rowIndex, column = columnIndex\<rparr>
      | None \<Rightarrow> findInRows this rest (rowIndex + 1))"

definition getPosition :: "piece \<Rightarrow> board \<Rightarrow> error + position" where
  "getPosition this b =
     (case findInRows this (grid b) 0 of
        None \<Rightarrow> Inl PieceNotFound
      | Some p \<Rightarrow> Inr p)"

text \<open>
  \<^verbatim>\<open>movePiece\<close> returns the exception it raised, if any, and the board it leaves behind:
  the two assignments are separate steps, and the second can fail after the first.
\<close>

definition movePiece :: "board \<Rightarrow> piece \<Rightarrow> position_or_string \<Rightarrow> error option \<times> board" where
  "movePiece b piece arg =
     (let position = toPosition arg
      in case getPosition piece b of
           Inl e \<Rightarrow> (Some e, b)
         | Inr currentPosition \<Rightarrow>
             (case put b (row currentPosition) (column currentPosition) Null of
                Inl e \<Rightarrow> (Some e, b)
              | Inr b1 \<Rightarrow>
                  (case put b1 (row position) (column position) (Obj piece) of
                     Inl e \<Rightarrow> (Some e, b1)
                   | Inr b2 \<Rightarrow> (None, b2))))"

text \<open>\<^verbatim>\<open>if (otherPiece)\<close>: an object is truthy, \<^verbatim>\<open>null\<close> and \<^verbatim>\<open>undefined\<close> are not.\<close>

definition truthy :: "jsval \<Rightarrow> bool" where
  "truthy v = (case v of Obj p \<Rightarrow> True | _ \<Rightarrow> False)"

text \<open>\<^verbatim>\<open>otherPiece?.color\<close>: \<^verbatim>\<open>undefined\<close> (here \<open>None\<close>) for \<^verbatim>\<open>null\<close> and \<^verbatim>\<open>undefined\<close>.\<close>

definition color_of :: "jsval \<Rightarrow> color option" where
  "color_of v = (case v of Obj p \<Rightarrow> Some (color p) | _ \<Rightarrow> None)"

text \<open>
  The \<^verbatim>\<open>while (otherPiece === null)\<close> loop of \<^verbatim>\<open>getAvaiableSquaresInDirections\<close>, entered with
  \<open>square\<close> the last square visited and \<open>squares\<close> the result so far. The first test of
  the loop condition is true (\<^verbatim>\<open>otherPiece\<close> starts as \<^verbatim>\<open>null\<close>); at the end of the body
  it is true only for an empty square. The loop has no bound of its own, so the result is
  an \<open>option\<close>: \<open>None\<close> is a loop that never ends.
\<close>

partial_function (option) scanLoop ::
  "board \<Rightarrow> piece \<Rightarrow> int \<Rightarrow> int \<Rightarrow> bool \<Rightarrow> position \<Rightarrow> position list \<Rightarrow>
   (error + position list) option"
where
  "scanLoop b this rowOffset columnOffset loop square squares =
     (let nextSquare = addOffset square rowOffset columnOffset
      in if \<not> isOnBoard nextSquare then Some (Inr squares)
         else
           (case getPieceAt b (AtPosition nextSquare) of
              Inl e \<Rightarrow> Some (Inl e)
            | Inr otherPiece \<Rightarrow>
                (let squares' =
                       (if color_of otherPiece \<noteq> Some (color this) then squares @ [nextSquare]
                        else squares)
                 in if truthy otherPiece then Some (Inr squares')
                    else if \<not> loop then Some (Inr squares')
                    else if otherPiece = Null
                      then scanLoop b this rowOffset columnOffset loop nextSquare squares'
                      else Some (Inr squares'))))"

declare scanLoop.simps [code]

text \<open>The loop over the directions; \<^verbatim>\<open>getPosition\<close> is called once for each.\<close>

fun scanDirections ::
  "board \<Rightarrow> piece \<Rightarrow> (int \<times> int) list \<Rightarrow> bool \<Rightarrow> position list \<Rightarrow>
   (error + position list) option"
where
  "scanDirections b this [] loop squares = Some (Inr squares)"
| "scanDirections b this ((rowOffset, columnOffset) # rest) loop squares =
     (case getPosition this b of
        Inl e \<Rightarrow> Some (Inl e)
      | Inr start \<Rightarrow>
          (case scanLoop b this rowOffset columnOffset loop start squares of
             None \<Rightarrow> None
           | Some (Inl e) \<Rightarrow> Some (Inl e)
           | Some (Inr squares') \<Rightarrow> scanDirections b this rest loop squares'))"

definition getAvaiableSquaresInDirections ::
  "board \<Rightarrow> piece \<Rightarrow> (int \<times> int) list \<Rightarrow> bool \<Rightarrow> (error + position list) option"
where
  "getAvaiableSquaresInDirections b this directions loop =
     scanDirections b this directions loop []"

section \<open>The pieces\<close>

text \<open>\<^verbatim>\<open>Pawn.availableSquares\<close>, lines 167 to 180: the squares straight ahead.\<close>

definition Pawn_forward :: "board \<Rightarrow> piece \<Rightarrow> position \<Rightarrow> int \<Rightarrow> error + position list" where
  "Pawn_forward b this position direction =
     (let nextSquare = addOffset position direction 0
      in case getPieceAt b (AtPosition nextSquare) of
           Inl e \<Rightarrow> Inl e
         | Inr ahead \<Rightarrow>
             (if ahead = Null then
                (if color this = White \<and> row position = WHITE_PAWN_ROW \<or>
                    color this = Black \<and> row position = BLACK_PAWN_ROW
                 then
                   (let nextSquare2 = addOffset position (direction * 2) 0
                    in case getPieceAt b (AtPosition nextSquare2) of
                         Inl e \<Rightarrow> Inl e
                       | Inr ahead2 \<Rightarrow>
                           Inr (if ahead2 = Null then [nextSquare, nextSquare2]
                                else [nextSquare]))
                 else Inr [nextSquare])
              else Inr []))"

text \<open>Lines 184 to 188 and 190 to 194: one diagonal, added when an enemy piece stands on it.\<close>

definition Pawn_diagonal ::
  "board \<Rightarrow> piece \<Rightarrow> position \<Rightarrow> position list \<Rightarrow> error + position list"
where
  "Pawn_diagonal b this diagonal squares =
     (case getPieceAt b (AtPosition diagonal) of
        Inl e \<Rightarrow> Inl e
      | Inr otherPiece \<Rightarrow>
          Inr (if truthy otherPiece \<and> color_of otherPiece \<noteq> Some (color this)
               then squares @ [diagonal] else squares))"

definition Pawn_availableSquares :: "board \<Rightarrow> piece \<Rightarrow> error + position list" where
  "Pawn_availableSquares b this =
     (case getPosition this b of
        Inl e \<Rightarrow> Inl e
      | Inr position \<Rightarrow>
          (let direction = (if color this = White then - 1 else 1)
           in case Pawn_forward b this position direction of
                Inl e \<Rightarrow> Inl e
              | Inr squares \<Rightarrow>
                  (case Pawn_diagonal b this (addOffset position direction (- 1)) squares of
                     Inl e \<Rightarrow> Inl e
                   | Inr squares1 \<Rightarrow>
                       Pawn_diagonal b this (addOffset position direction 1) squares1)))"

definition Rook_directions :: "(int \<times> int) list" where
  "Rook_directions = [(1, 0), (- 1, 0), (0, 1), (0, - 1)]"

definition Knight_directions :: "(int \<times> int) list" where
  "Knight_directions =
     [(1, 2), (1, - 2), (- 1, 2), (- 1, - 2), (2, 1), (2, - 1), (- 2, 1), (- 2, - 1)]"

definition Bishop_directions :: "(int \<times> int) list" where
  "Bishop_directions = [(1, 1), (- 1, 1), (1, - 1), (- 1, - 1)]"

definition Queen_directions :: "(int \<times> int) list" where
  "Queen_directions =
     [(1, 0), (- 1, 0), (0, 1), (0, - 1), (1, 1), (- 1, 1), (1, - 1), (- 1, - 1)]"

definition King_directions :: "(int \<times> int) list" where
  "King_directions =
     [(1, 0), (- 1, 0), (0, 1), (0, - 1), (1, 1), (- 1, 1), (1, - 1), (- 1, - 1)]"

text \<open>
  The method \<^verbatim>\<open>availableSquares\<close> of the class of the piece; \<^verbatim>\<open>createPiece\<close> and the
  constructors tie the class to the field \<open>ptype\<close>.
\<close>

definition availableSquares :: "board \<Rightarrow> piece \<Rightarrow> (error + position list) option" where
  "availableSquares b this =
     (case ptype this of
        Pawn \<Rightarrow> Some (Pawn_availableSquares b this)
      | Rook \<Rightarrow> getAvaiableSquaresInDirections b this Rook_directions True
      | Knight \<Rightarrow> getAvaiableSquaresInDirections b this Knight_directions False
      | Bishop \<Rightarrow> getAvaiableSquaresInDirections b this Bishop_directions True
      | Queen \<Rightarrow> getAvaiableSquaresInDirections b this Queen_directions True
      | King \<Rightarrow> getAvaiableSquaresInDirections b this King_directions False)"

section \<open>Notions the properties are stated with\<close>

text \<open>
  The square notation of the interface: one lowercase letter \<open>a\<close> to \<open>h\<close> followed by one
  digit \<open>1\<close> to \<open>8\<close>.
\<close>

definition columnLetter :: "char \<Rightarrow> bool" where
  "columnLetter c = (c \<in> set ''abcdefgh'')"

definition rankDigit :: "char \<Rightarrow> bool" where
  "rankDigit d = (d \<in> set ''12345678'')"

definition validNotation :: "string \<Rightarrow> bool" where
  "validNotation s = (case s of [c, d] \<Rightarrow> columnLetter c \<and> rankDigit d | _ \<Rightarrow> False)"

text \<open>
  The grid as the data model describes it: eight rows of eight cells, each cell
  \<^verbatim>\<open>null\<close> or a piece, and no property besides the cells.
\<close>

definition wf_board :: "board \<Rightarrow> bool" where
  "wf_board b =
     (length (grid b) = 8 \<and>
      list_all (\<lambda>a. length (elems a) = 8 \<and> Undefined \<notin> set (elems a) \<and> named a = [])
        (grid b))"

text \<open>All cells of the grid, row by row.\<close>

definition cells :: "board \<Rightarrow> jsval list" where
  "cells b = concat (map elems (grid b))"

text \<open>The type of the piece in a cell, if there is one.\<close>

definition type_of :: "jsval \<Rightarrow> piece_type option" where
  "type_of v = (case v of Obj p \<Rightarrow> Some (ptype p) | _ \<Rightarrow> None)"

text \<open>The board \<^verbatim>\<open>new Board()\<close> builds when its pieces are the first objects allocated.\<close>

definition startBoard :: board where
  "startBoard = (case Board_new 0 of Inr (b, n) \<Rightarrow> b | Inl e \<Rightarrow> \<lparr>grid = []\<rparr>)"

text \<open>
  The rows \<^verbatim>\<open>initialize\<close> builds: the pieces of one colour are allocated two apart,
  since the loops create a black and a white piece in turn.
\<close>

definition backRank :: "nat \<Rightarrow> color \<Rightarrow> jsarray" where
  "backRank n c =
     \<lparr>elems = map (\<lambda>i. Obj \<lparr>ident = n + 2 * i, ptype = pieceOrder ! i, color = c\<rparr>) [0..<8],
      named = []\<rparr>"

definition pawnRank :: "nat \<Rightarrow> color \<Rightarrow> jsarray" where
  "pawnRank n c =
     \<lparr>elems = map (\<lambda>i. Obj \<lparr>ident = n + 2 * i, ptype = Pawn, color = c\<rparr>) [0..<8],
      named = []\<rparr>"

text \<open>
  The boards a program can reach: the one the constructor builds, then any sequence of
  calls of \<^verbatim>\<open>initialize\<close> and \<^verbatim>\<open>movePiece\<close>, failed calls included (a failed
  \<^verbatim>\<open>movePiece\<close> can leave a changed board behind). \<^verbatim>\<open>movePiece\<close> is called with any
  piece, on the board or not, and any position or string; \<open>n\<close> is the number of objects
  allocated before a call of the constructor or of \<^verbatim>\<open>initialize\<close>, and is left free.
\<close>

inductive reachable :: "board \<Rightarrow> bool" where
  construct: "Board_new n = Inr (b, n') \<Longrightarrow> reachable b"
| reinitialize: "reachable b \<Longrightarrow> initialize b n = Inr (b', n') \<Longrightarrow> reachable b'"
| move: "reachable b \<Longrightarrow> movePiece b p t = (e, b') \<Longrightarrow> reachable b'"

text \<open>No piece is read at two different positions.\<close>

definition oneCellEach :: "board \<Rightarrow> bool" where
  "oneCellEach b =
     (\<forall>p x y. getPieceAt b (AtPosition x) = Inr (Obj p) \<and>
              getPieceAt b (AtPosition y) = Inr (Obj p) \<longrightarrow> x = y)"


text \<open>
  Pawns: the direction of movement, the starting row, the square \<open>k\<close> steps straight
  ahead, and the forward destinations among a list of squares (those in the pawn's own
  column; the diagonals are one column off).
\<close>

definition pawnDirection :: "piece \<Rightarrow> int" where
  "pawnDirection this = (if color this = White then - 1 else 1)"

definition pawnStartRow :: "piece \<Rightarrow> int" where
  "pawnStartRow this = (if color this = White then WHITE_PAWN_ROW else BLACK_PAWN_ROW)"

definition ahead :: "piece \<Rightarrow> position \<Rightarrow> int \<Rightarrow> position" where
  "ahead this A k = addOffset A (k * pawnDirection this) 0"

definition forwardSquares :: "position \<Rightarrow> position list \<Rightarrow> position list" where
  "forwardSquares A squares = filter (\<lambda>s. column s = column A) squares"


text \<open>
  The directional scan as the specification words it. \<open>occupant\<close> is the piece standing
  on a square, if any. \<open>ray A d n\<close> lists the squares reached from \<open>A\<close> by stepping
  \<open>1, 2, ..., n\<close> times by the offset \<open>d\<close>. \<open>specScan\<close> walks along such a list: it
  stops as soon as the next square is off the board; an empty square is a destination and
  the walk goes on only when \<open>loop\<close> is set; a square holding a piece of the opposite
  colour is a destination and one holding a piece of the same colour is not, and the walk
  stops after either.
\<close>

definition occupant :: "board \<Rightarrow> position \<Rightarrow> piece option" where
  "occupant b s = (case getPieceAt b (AtPosition s) of Inr (Obj q) \<Rightarrow> Some q | _ \<Rightarrow> None)"

definition ray :: "position \<Rightarrow> int \<times> int \<Rightarrow> nat \<Rightarrow> position list" where
  "ray A d n = map (\<lambda>k. addOffset A (int k * fst d) (int k * snd d)) [1..<Suc n]"

fun specScan :: "board \<Rightarrow> piece \<Rightarrow> bool \<Rightarrow> position list \<Rightarrow> position list" where
  "specScan b this loop [] = []"
| "specScan b this loop (s # rest) =
     (if \<not> isOnBoard s then []
      else
        (case occupant b s of
           None \<Rightarrow> s # (if loop then specScan b this loop rest else [])
         | Some q \<Rightarrow> (if color q \<noteq> color this then [s] else [])))"


text \<open>
  The diagonal captures of a pawn standing at \<open>A\<close>: its two forward diagonals, left
  then right, each one kept when a piece of the opposite colour stands on it.
\<close>

definition captures :: "board \<Rightarrow> piece \<Rightarrow> position \<Rightarrow> position list" where
  "captures b this A =
     filter (\<lambda>s. case occupant b s of None \<Rightarrow> False | Some q \<Rightarrow> color q \<noteq> color this)
       [addOffset A (pawnDirection this) (- 1), addOffset A (pawnDirection this) 1]"

text \<open>
  Playing moves by notation, with the two calls the click handler makes (and without its
  test that the target is an available square): the piece is looked up on its square and
  moved to the target.
\<close>

fun play :: "board \<Rightarrow> (string \<times> string) list \<Rightarrow> board" where
  "play b [] = b"
| "play b ((source, target) # rest) =
     (case getPieceAt b (AtString source) of
        Inr (Obj p) \<Rightarrow> play (snd (movePiece b p (AtString target))) rest
      | _ \<Rightarrow> play b rest)"

section \<open>Position: notation\<close>

lemma indexOf_range: "- 1 \<le> indexOf xs x \<and> indexOf xs x < int (length xs)"
  by (induction xs) (auto simp: Let_def)

lemma indexOf_mem: "x \<in> set xs \<Longrightarrow> 0 \<le> indexOf xs x \<and> xs ! nat (indexOf xs x) = x"
proof (induction xs)
  case Nil
  then show ?case by simp
next
  case (Cons y ys)
  show ?case
  proof (cases "y = x")
    case True
    then show ?thesis by simp
  next
    case False
    with Cons have "0 \<le> indexOf ys x" "ys ! nat (indexOf ys x) = x" by auto
    with False show ?thesis by (simp add: Let_def nat_add_distrib)
  qed
qed

lemma indexOf_notmem: "x \<notin> set xs \<Longrightarrow> indexOf xs x = - 1"
  by (induction xs) (auto simp: Let_def)

lemma column_of_letter:
  "indexOf COLUMNS c = (if columnLetter c then int (of_char c) - 97 else - 1)"
proof (cases "columnLetter c")
  case True
  then have "indexOf ''abcdefgh'' c = int (of_char c) - 97"
    unfolding columnLetter_def by (simp, elim disjE, simp_all)
  with True show ?thesis by (simp add: COLUMNS_def)
next
  case False
  then have "c \<notin> set COLUMNS" by (simp add: columnLetter_def COLUMNS_def)
  with False show ?thesis by (simp add: indexOf_notmem)
qed

lemma char_of_digit:
  "char_of (49::nat) = CHR ''1''" "char_of (50::nat) = CHR ''2''" "char_of (51::nat) = CHR ''3''"
  "char_of (52::nat) = CHR ''4''" "char_of (53::nat) = CHR ''5''" "char_of (54::nat) = CHR ''6''"
  "char_of (55::nat) = CHR ''7''" "char_of (56::nat) = CHR ''8''"
  by code_simp+

lemma rank_char: "49 \<le> k \<and> k \<le> 56 \<Longrightarrow> rankDigit (char_of (k :: nat))"
proof -
  assume "49 \<le> k \<and> k \<le> 56"
  then have "k = 49 \<or> k = 50 \<or> k = 51 \<or> k = 52 \<or> k = 53 \<or> k = 54 \<or> k = 55 \<or> k = 56"
    by arith
  then show ?thesis
    by (elim disjE) (simp_all add: rankDigit_def char_of_digit)
qed

lemma rankDigit_iff: "rankDigit d \<longleftrightarrow> 49 \<le> (of_char d :: nat) \<and> (of_char d :: nat) \<le> 56"
proof
  assume "rankDigit d"
  then show "49 \<le> (of_char d :: nat) \<and> (of_char d :: nat) \<le> 56"
    unfolding rankDigit_def by (simp, elim disjE, simp_all)
next
  assume "49 \<le> (of_char d :: nat) \<and> (of_char d :: nat) \<le> 56"
  from rank_char [OF this] show "rankDigit d" by simp
qed

lemma indexOf_ROWS: "indexOf ROWS n = (if 1 \<le> n \<and> n \<le> 8 then 8 - n else - 1)"
proof (cases "1 \<le> n \<and> n \<le> 8")
  case True
  then have "n \<in> {1, 2, 3, 4, 5, 6, 7, 8}" by auto
  then have "indexOf [8, 7, 6, 5, 4, 3, 2, 1] n = 8 - n"
    by (simp, elim disjE, simp_all)
  with True show ?thesis by (simp add: ROWS_def)
next
  case False
  then have "n \<notin> set ROWS" by (auto simp: ROWS_def)
  with False show ?thesis by (simp add: indexOf_notmem)
qed

lemma row_of_digit:
  "(case Number (Some d) of None \<Rightarrow> - 1 | Some n \<Rightarrow> indexOf ROWS n) =
   (if rankDigit d then 8 - (int (of_char d) - 48) else - 1)"
  by (auto simp: Number_def indexOf_ROWS rankDigit_iff)

lemma digits_of_rank: "rankDigit d \<Longrightarrow> Number_toString (int (of_char d) - 48) = [d]"
  unfolding rankDigit_def by (simp, elim disjE, simp_all add: Number_toString_def char_of_digit)

lemma letter_of_column:
  "columnLetter c \<Longrightarrow> array_index COLUMNS (int (of_char c) - 97) = Some c"
  unfolding columnLetter_def
  by (simp, elim disjE, simp_all add: array_index_def COLUMNS_def)

lemma rank_of_row:
  "rankDigit d \<Longrightarrow>
   array_index ROWS (8 - (int (of_char d) - 48)) = Some (int (of_char d) - 48)"
  unfolding rankDigit_def
  by (simp, elim disjE, simp_all add: array_index_def ROWS_def)

lemma fromString_onBoard:
  "isOnBoard (fromString s) \<longleftrightarrow>
     (\<exists>c d. charAt s 0 = Some c \<and> columnLetter c \<and> charAt s 1 = Some d \<and> rankDigit d)"
proof -
  have c: "column (fromString s) =
     (case charAt s 0 of None \<Rightarrow> - 1 | Some c \<Rightarrow> indexOf COLUMNS c)"
    by (simp add: fromString_def)
  have r: "row (fromString s) =
     (case charAt s 1 of
        None \<Rightarrow> - 1
      | Some d \<Rightarrow> (case Number (Some d) of None \<Rightarrow> - 1 | Some n \<Rightarrow> indexOf ROWS n))"
    by (simp add: fromString_def Number_def split: option.splits)
  have cl: "columnLetter x \<Longrightarrow> 0 \<le> int (of_char x) - 97 \<and> int (of_char x) - 97 \<le> 7" for x
    unfolding columnLetter_def by (simp, elim disjE, simp_all)
  have rd: "rankDigit x \<Longrightarrow> 0 \<le> 8 - (int (of_char x) - 48) \<and> 8 - (int (of_char x) - 48) \<le> 7" for x
    by (auto simp: rankDigit_iff)
  show ?thesis
    unfolding isOnBoard_def c r
    using cl rd
    by (auto simp: column_of_letter row_of_digit split: option.splits)
qed

text \<open>
  Claim C3, as the code has it. \<^verbatim>\<open>Position.fromString\<close> has no failure: it reads the first two
  characters of any string and returns a position. The column index is the place of the
  first character among \<open>a\<close> to \<open>h\<close>, and \<open>-1\<close> when that character is missing or is no
  column letter; the row index is \<open>8\<close> minus the digit when the second character is a
  digit \<open>1\<close> to \<open>8\<close>, and \<open>-1\<close> otherwise. The position returned is on the board
  exactly when the first character is a column letter and the second a rank digit,
  whatever follows them; so a string whose first character is no column letter or whose
  second is no rank digit gives a position off the board, and a valid notation gives
  the position it names.
\<close>

theorem fromString_indices:
  "column (fromString s) =
     (case charAt s 0 of
        None \<Rightarrow> - 1
      | Some c \<Rightarrow> if columnLetter c then int (of_char c) - 97 else - 1) \<and>
   row (fromString s) =
     (case charAt s 1 of
        None \<Rightarrow> - 1
      | Some d \<Rightarrow> if rankDigit d then 8 - (int (of_char d) - 48) else - 1) \<and>
   (isOnBoard (fromString s) \<longleftrightarrow>
      (\<exists>c d. charAt s 0 = Some c \<and> columnLetter c \<and> charAt s 1 = Some d \<and> rankDigit d)) \<and>
   (validNotation s \<longrightarrow>
      isOnBoard (fromString s) \<and>
      fromString s =
        \<lparr>row = 8 - (int (of_char (s ! 1)) - 48), column = int (of_char (s ! 0)) - 97\<rparr>)"
proof (intro conjI impI)
  have c: "column (fromString s) =
     (case charAt s 0 of None \<Rightarrow> - 1 | Some c \<Rightarrow> indexOf COLUMNS c)"
    by (simp add: fromString_def)
  have r: "row (fromString s) =
     (case charAt s 1 of
        None \<Rightarrow> - 1
      | Some d \<Rightarrow> (case Number (Some d) of None \<Rightarrow> - 1 | Some n \<Rightarrow> indexOf ROWS n))"
    by (simp add: fromString_def Number_def split: option.splits)
  show "column (fromString s) =
     (case charAt s 0 of
        None \<Rightarrow> - 1
      | Some c \<Rightarrow> if columnLetter c then int (of_char c) - 97 else - 1)"
    unfolding c by (simp add: column_of_letter split: option.splits)
  show "row (fromString s) =
     (case charAt s 1 of
        None \<Rightarrow> - 1
      | Some d \<Rightarrow> if rankDigit d then 8 - (int (of_char d) - 48) else - 1)"
    unfolding r by (simp add: row_of_digit split: option.splits)
  show "isOnBoard (fromString s) \<longleftrightarrow>
      (\<exists>c d. charAt s 0 = Some c \<and> columnLetter c \<and> charAt s 1 = Some d \<and> rankDigit d)"
    by (rule fromString_onBoard)
  assume "validNotation s"
  then obtain c d where s: "s = [c, d]" and cd: "columnLetter c" "rankDigit d"
    by (auto simp: validNotation_def split: list.splits)
  then show "isOnBoard (fromString s)"
    by (simp add: fromString_onBoard charAt_def)
  from s cd show "fromString s =
        \<lparr>row = 8 - (int (of_char (s ! 1)) - 48), column = int (of_char (s ! 0)) - 97\<rparr>"
    by (simp add: fromString_def charAt_def column_of_letter row_of_digit)
qed

theorem fromString_indices_e4:
  "validNotation ''e4'' \<and> isOnBoard (fromString ''e4'') \<and>
   fromString ''e4'' = \<lparr>row = 4, column = 4\<rparr>"
proof -
  have v: "validNotation ''e4''"
    by (simp add: validNotation_def columnLetter_def rankDigit_def)
  from fromString_indices [of "''e4''"] v show ?thesis by (simp add: isOnBoard_def)
qed

text \<open>
  Claim C3 as stated fails: on \<open>z9\<close>, whose letter is no column and whose digit is no rank,
  \<^verbatim>\<open>fromString\<close> returns the position \<open>(-1, -1)\<close> instead of failing.
\<close>

theorem fromString_invalid_returns:
  "\<not> validNotation ''z9'' \<and> fromString ''z9'' = \<lparr>row = - 1, column = - 1\<rparr>"
  by (simp add: validNotation_def columnLetter_def fromString_def charAt_def Number_def
      COLUMNS_def ROWS_def isWhiteSpace_def)

text \<open>
  Claim C7: for every valid notation \<open>s\<close>, \<^verbatim>\<open>toString(fromString(s))\<close> is \<open>s\<close>; and the
  position with row index 0 and column index 0 prints as \<open>a8\<close>.
\<close>

theorem notation_roundtrip:
  "(validNotation s \<longrightarrow> toString (fromString s) = s) \<and>
   toString \<lparr>row = 0, column = 0\<rparr> = ''a8''"
proof
  show "validNotation s \<longrightarrow> toString (fromString s) = s"
  proof
    assume "validNotation s"
    then obtain c d where s: "s = [c, d]" and c: "columnLetter c" and d: "rankDigit d"
      by (auto simp: validNotation_def split: list.splits)
    have "fromString s = \<lparr>row = 8 - (int (of_char d) - 48), column = int (of_char c) - 97\<rparr>"
      using c d by (simp add: s fromString_def charAt_def column_of_letter row_of_digit)
    then show "toString (fromString s) = s"
      using letter_of_column [OF c] rank_of_row [OF d] digits_of_rank [OF d]
      by (simp add: toString_def s)
  qed
  show "toString \<lparr>row = 0, column = 0\<rparr> = ''a8''"
    by (simp add: toString_def array_index_def COLUMNS_def ROWS_def Number_toString_def
        char_of_digit)
qed

theorem notation_roundtrip_e4:
  "validNotation ''e4'' \<and> toString (fromString ''e4'') = ''e4''"
  using notation_roundtrip [of "''e4''"]
  by (simp add: validNotation_def columnLetter_def rankDigit_def)

section \<open>Board: initialize and getPieceAt\<close>

lemma upt8: "[0..<8] = [0, 1, 2, 3, 4, 5, 6, 7]"
  by code_simp

lemma list_update_Cons_numeral: "(x # xs)[numeral k := y] = x # xs[pred_numeral k := y]"
  by (simp add: numeral_eq_Suc)

lemma replicate_numeral: "replicate (numeral k) x = x # replicate (pred_numeral k) x"
  by (simp add: numeral_eq_Suc)

lemma indexOf_COLUMNS:
  "indexOf COLUMNS CHR ''a'' = 0" "indexOf COLUMNS CHR ''b'' = 1" "indexOf COLUMNS CHR ''c'' = 2"
  "indexOf COLUMNS CHR ''d'' = 3" "indexOf COLUMNS CHR ''e'' = 4" "indexOf COLUMNS CHR ''f'' = 5"
  "indexOf COLUMNS CHR ''g'' = 6" "indexOf COLUMNS CHR ''h'' = 7"
  by (simp_all add: COLUMNS_def)

lemma put_row:
  "0 \<le> r \<Longrightarrow> nat r < length g \<Longrightarrow>
   put \<lparr>grid = g\<rparr> r c v = Inr \<lparr>grid = g[nat r := array_set (g ! nat r) c v]\<rparr>"
  by (simp add: put_def array_index_def)

lemma array_set_elem:
  "0 \<le> c \<Longrightarrow> c < int (length xs) \<Longrightarrow>
   array_set \<lparr>elems = xs, named = ns\<rparr> c v = \<lparr>elems = xs[nat c := v], named = ns\<rparr>"
  by (simp add: array_set_def)

lemma placePawns_fresh:
  "placePawns COLUMNS \<lparr>grid = replicate 8 (Array_fill 8 Null)\<rparr> n =
     Inr (\<lparr>grid = [Array_fill 8 Null, pawnRank n Black,
                    Array_fill 8 Null, Array_fill 8 Null, Array_fill 8 Null, Array_fill 8 Null,
                    pawnRank (n + 1) White, Array_fill 8 Null]\<rparr>, n + 16)"
  by (simp add: COLUMNS_def indexOf_COLUMNS [unfolded COLUMNS_def] createPiece_def put_row
      array_set_elem BLACK_PAWN_ROW_def WHITE_PAWN_ROW_def Array_fill_def pawnRank_def upt8
      list_update_Cons_numeral replicate_numeral del: indexOf.simps)

lemma placePieces_fresh:
  "placePieces [0..<8]
     \<lparr>grid = [Array_fill 8 Null, r1, r2, r3, r4, r5, r6, Array_fill 8 Null]\<rparr> n =
   Inr (\<lparr>grid = [backRank n Black, r1, r2, r3, r4, r5, r6, backRank (n + 1) White]\<rparr>,
        n + 16)"
  by (simp add: createPiece_def put_row array_set_elem BLACK_PIECE_ROW_def
      WHITE_PIECE_ROW_def Array_fill_def backRank_def upt8 list_update_Cons_numeral
      replicate_numeral pieceOrder_def)

lemma initialize_eq:
  "initialize b n =
     Inr (\<lparr>grid = [backRank (n + 16) Black, pawnRank n Black,
                    Array_fill 8 Null, Array_fill 8 Null, Array_fill 8 Null, Array_fill 8 Null,
                    pawnRank (n + 1) White, backRank (n + 17) White]\<rparr>, n + 32)"
proof -
  have eq: "b\<lparr>grid := replicate 8 (Array_fill 8 Null)\<rparr> =
            \<lparr>grid = replicate 8 (Array_fill 8 Null)\<rparr>"
    by simp
  show ?thesis
    unfolding initialize_def Let_def eq placePawns_fresh
    by (simp add: placePieces_fresh add.commute)
qed

text \<open>
  Claim C6: \<^verbatim>\<open>initialize\<close> returns normally, having allocated 32 pieces, and leaves an
  8 by 8 grid; row 0 holds black's back rank and row 7 white's, in the order rook, knight,
  bishop, queen, king, bishop, knight, rook; row 1 holds eight black pawns and row 6 eight
  white pawns; rows 2 to 5 are empty; so 32 cells are occupied, 16 by each colour, 8 of
  them pawns.
\<close>

theorem initialize_layout:
  "\<exists>b'. initialize b n = Inr (b', n + 32) \<and>
     wf_board b' \<and>
     map type_of (elems (grid b' ! 0)) =
       [Some Rook, Some Knight, Some Bishop, Some Queen, Some King, Some Bishop, Some Knight,
        Some Rook] \<and>
     map color_of (elems (grid b' ! 0)) = replicate 8 (Some Black) \<and>
     map type_of (elems (grid b' ! 1)) = replicate 8 (Some Pawn) \<and>
     map color_of (elems (grid b' ! 1)) = replicate 8 (Some Black) \<and>
     elems (grid b' ! 2) = replicate 8 Null \<and>
     elems (grid b' ! 3) = replicate 8 Null \<and>
     elems (grid b' ! 4) = replicate 8 Null \<and>
     elems (grid b' ! 5) = replicate 8 Null \<and>
     map type_of (elems (grid b' ! 6)) = replicate 8 (Some Pawn) \<and>
     map color_of (elems (grid b' ! 6)) = replicate 8 (Some White) \<and>
     map type_of (elems (grid b' ! 7)) =
       [Some Rook, Some Knight, Some Bishop, Some Queen, Some King, Some Bishop, Some Knight,
        Some Rook] \<and>
     map color_of (elems (grid b' ! 7)) = replicate 8 (Some White) \<and>
     length (filter truthy (cells b')) = 32 \<and>
     length (filter (\<lambda>v. color_of v = Some Black) (cells b')) = 16 \<and>
     length (filter (\<lambda>v. color_of v = Some White) (cells b')) = 16 \<and>
     length (filter (\<lambda>v. type_of v = Some Pawn \<and> color_of v = Some Black) (cells b')) = 8 \<and>
     length (filter (\<lambda>v. type_of v = Some Pawn \<and> color_of v = Some White) (cells b')) = 8"
  unfolding initialize_eq
  by (simp add: backRank_def pawnRank_def Array_fill_def upt8 pieceOrder_def type_of_def
      color_of_def truthy_def cells_def replicate_numeral wf_board_def)

lemma wf_row:
  "wf_board b \<Longrightarrow> 0 \<le> r \<Longrightarrow> r \<le> 7 \<Longrightarrow>
   array_index (grid b) r = Some (grid b ! nat r) \<and>
   length (elems (grid b ! nat r)) = 8 \<and> Undefined \<notin> set (elems (grid b ! nat r)) \<and>
   named (grid b ! nat r) = []"
  by (auto simp: wf_board_def array_index_def list_all_length)

lemma wf_no_row: "wf_board b \<Longrightarrow> r < 0 \<or> 7 < r \<Longrightarrow> array_index (grid b) r = None"
  by (auto simp: wf_board_def array_index_def)

lemma wf_cell:
  "wf_board b \<Longrightarrow> isOnBoard p \<Longrightarrow>
   getPieceAt b (AtPosition p) = Inr (elems (grid b ! nat (row p)) ! nat (column p)) \<and>
   elems (grid b ! nat (row p)) ! nat (column p) \<noteq> Undefined"
proof -
  assume wf: "wf_board b" and on: "isOnBoard p"
  from on have r: "0 \<le> row p" "row p \<le> 7" and c: "0 \<le> column p" "column p \<le> 7"
    by (auto simp: isOnBoard_def)
  note w = wf_row [OF wf r]
  from w c have "nat (column p) < length (elems (grid b ! nat (row p)))" by auto
  then have "elems (grid b ! nat (row p)) ! nat (column p) \<in> set (elems (grid b ! nat (row p)))"
    by (rule nth_mem)
  with w have "elems (grid b ! nat (row p)) ! nat (column p) \<noteq> Undefined" by metis
  moreover
  have "getPieceAt b (AtPosition p) = Inr (elems (grid b ! nat (row p)) ! nat (column p))"
    using w c by (simp add: getPieceAt_def array_get_def)
  ultimately show ?thesis by simp
qed

lemma getPieceAt_wf:
  "wf_board b \<Longrightarrow>
   getPieceAt b (AtPosition p) =
     (if row p < 0 \<or> 7 < row p then Inl TypeError
      else if column p < 0 \<or> 7 < column p then Inr Undefined
      else Inr (elems (grid b ! nat (row p)) ! nat (column p))) \<and>
   (isOnBoard p \<longrightarrow> elems (grid b ! nat (row p)) ! nat (column p) \<noteq> Undefined)"
proof -
  assume wf: "wf_board b"
  show ?thesis
  proof (cases "row p < 0 \<or> 7 < row p")
    case True
    then show ?thesis using wf_no_row [OF wf True]
      by (auto simp: getPieceAt_def isOnBoard_def)
  next
    case False
    then have r: "0 \<le> row p" "row p \<le> 7" by auto
    note w = wf_row [OF wf r]
    show ?thesis
    proof (cases "column p < 0 \<or> 7 < column p")
      case True
      then show ?thesis using w r
        by (auto simp: getPieceAt_def array_get_def isOnBoard_def)
    next
      case False
      with r have on: "isOnBoard p" by (simp add: isOnBoard_def)
      from wf_cell [OF wf on] False r on show ?thesis by auto
    qed
  qed
qed

text \<open>
  Claim C4, as the code has it, on an 8 by 8 grid. \<^verbatim>\<open>getPieceAt\<close> fails exactly when the row
  index is outside 0 to 7, with the \<^verbatim>\<open>TypeError\<close> of indexing a row that does not exist.
  With the row index inside and the column index outside, it does not fail: it returns
  \<^verbatim>\<open>undefined\<close>. With both inside it returns the content of the cell, a piece or
  \<^verbatim>\<open>null\<close>.
\<close>

theorem getPieceAt_cases:
  "wf_board b \<Longrightarrow>
   getPieceAt b (AtPosition p) =
     (if row p < 0 \<or> 7 < row p then Inl TypeError
      else if column p < 0 \<or> 7 < column p then Inr Undefined
      else Inr (elems (grid b ! nat (row p)) ! nat (column p))) \<and>
   (isOnBoard p \<longrightarrow> elems (grid b ! nat (row p)) ! nat (column p) \<noteq> Undefined)"
  by (rule getPieceAt_wf)

theorem getPieceAt_cases_e1:
  "wf_board startBoard \<and> isOnBoard \<lparr>row = 7, column = 4\<rparr> \<and>
   getPieceAt startBoard (AtPosition \<lparr>row = 7, column = 4\<rparr>) =
     Inr (Obj \<lparr>ident = 25, ptype = King, color = White\<rparr>)"
proof -
  have w: "wf_board startBoard" by code_simp
  have v: "elems (grid startBoard ! 7) ! 4 = Obj \<lparr>ident = 25, ptype = King, color = White\<rparr>"
    by code_simp
  from getPieceAt_cases [OF w, of "\<lparr>row = 7, column = 4\<rparr>"] v w show ?thesis
    by (simp add: isOnBoard_def)
qed

text \<open>
  Claim C4 as stated fails: column 8 of row 0 is outside the grid, and \<^verbatim>\<open>getPieceAt\<close>
  returns \<^verbatim>\<open>undefined\<close> there instead of failing.
\<close>

theorem getPieceAt_column_8:
  "\<not> isOnBoard \<lparr>row = 0, column = 8\<rparr> \<and>
   getPieceAt startBoard (AtPosition \<lparr>row = 0, column = 8\<rparr>) = Inr Undefined"
  by code_simp

section \<open>Reading and writing the grid, getPosition, movePiece\<close>

lemma array_get_set: "array_get (array_set a i v) j = (if j = i then v else array_get a j)"
proof (cases "0 \<le> i")
  case neg: False
  then show ?thesis by (auto simp: array_get_def array_set_def)
next
  case True
  show ?thesis
  proof (cases "i < int (length (elems a))")
    case True
    with \<open>0 \<le> i\<close> show ?thesis
      by (auto simp: array_get_def array_set_def nth_list_update)
  next
    case False
    with \<open>0 \<le> i\<close> show ?thesis
      by (auto simp: array_get_def array_set_def nth_append nat_less_iff)
  qed
qed

lemma put_Inr:
  "put b r c v = Inr b' \<longleftrightarrow>
   0 \<le> r \<and> r < int (length (grid b)) \<and>
   b' = b\<lparr>grid := (grid b)[nat r := array_set (grid b ! nat r) c v]\<rparr>"
  by (auto simp: put_def array_index_def)

lemma put_Inl: "put b r c v = Inl e \<longleftrightarrow> e = TypeError \<and> \<not> (0 \<le> r \<and> r < int (length (grid b)))"
  by (auto simp: put_def array_index_def)

lemma getPieceAt_put:
  "put b r c v = Inr b' \<Longrightarrow>
   getPieceAt b' (AtPosition p) =
     (if row p = r \<and> column p = c then Inr v else getPieceAt b (AtPosition p))"
  by (auto simp: put_Inr getPieceAt_def array_index_def array_get_set nth_list_update)

lemma find_eq: "find (\<lambda>v. v = x) xs = (if x \<in> set xs then Some x else None)"
  by (induction xs) auto

lemma findInRow_Some:
  "findInRow this r = Some c \<Longrightarrow>
   0 \<le> c \<and> c < int (length (elems r)) \<and> elems r ! nat c = Obj this"
proof -
  assume "findInRow this r = Some c"
  then have "Obj this \<in> set (elems r)" and "c = indexOf (elems r) (Obj this)"
    by (auto simp: findInRow_def find_eq split: if_splits)
  with indexOf_mem [of "Obj this" "elems r"] indexOf_range [of "elems r" "Obj this"]
  show ?thesis by simp
qed

lemma findInRow_None: "findInRow this r = None \<longleftrightarrow> Obj this \<notin> set (elems r)"
  by (simp add: findInRow_def find_eq)

lemma findInRows_Some:
  "findInRows this rs k = Some A \<Longrightarrow>
   k \<le> row A \<and> row A < k + int (length rs) \<and>
   findInRow this (rs ! nat (row A - k)) = Some (column A)"
proof (induction rs arbitrary: k)
  case Nil
  then show ?case by simp
next
  case (Cons r rs)
  show ?case
  proof (cases "findInRow this r")
    case (Some c)
    with Cons.prems show ?thesis by auto
  next
    case None
    with Cons.prems have "findInRows this rs (k + 1) = Some A" by simp
    from Cons.IH [OF this]
    have ih: "k + 1 \<le> row A" "row A < k + 1 + int (length rs)"
      "findInRow this (rs ! nat (row A - (k + 1))) = Some (column A)" by auto
    from ih(1) have "nat (row A - k) = Suc (nat (row A - (k + 1)))" by arith
    with ih show ?thesis by simp
  qed
qed

lemma findInRows_None:
  "findInRows this rs k = None \<longleftrightarrow> Obj this \<notin> set (concat (map elems rs))"
proof (induction rs arbitrary: k)
  case Nil
  then show ?case by simp
next
  case (Cons r rs)
  show ?case
  proof (cases "findInRow this r")
    case None
    then have "Obj this \<notin> set (elems r)" by (simp add: findInRow_None)
    then show ?thesis using Cons.IH [of "k + 1"] by (simp add: None)
  next
    case (Some c)
    then have "Obj this \<in> set (elems r)" using findInRow_None [of this r] by simp
    with Some show ?thesis by simp
  qed
qed

lemma getPosition_Inr:
  "getPosition this b = Inr A \<Longrightarrow>
   0 \<le> row A \<and> row A < int (length (grid b)) \<and>
   0 \<le> column A \<and> column A < int (length (elems (grid b ! nat (row A)))) \<and>
   getPieceAt b (AtPosition A) = Inr (Obj this)"
proof -
  assume "getPosition this b = Inr A"
  then have "findInRows this (grid b) 0 = Some A"
    by (auto simp: getPosition_def split: option.splits)
  from findInRows_Some [OF this]
  have r: "0 \<le> row A" "row A < int (length (grid b))"
    and "findInRow this (grid b ! nat (row A)) = Some (column A)" by auto
  from findInRow_Some [OF this(3)] r show ?thesis
    by (simp add: getPieceAt_def array_index_def array_get_def)
qed

lemma getPosition_Inl:
  "getPosition this b = Inl e \<longleftrightarrow> e = PieceNotFound \<and> Obj this \<notin> set (cells b)"
proof (cases "findInRows this (grid b) 0")
  case None
  then have "Obj this \<notin> set (cells b)" by (simp add: findInRows_None cells_def)
  with None show ?thesis by (auto simp: getPosition_def)
next
  case (Some A)
  then have "Obj this \<in> set (cells b)"
    using findInRows_None [of this "grid b" 0] by (simp add: cells_def)
  with Some show ?thesis by (simp add: getPosition_def)
qed


lemma put_preserves_length: "put b r c v = Inr b' \<Longrightarrow> length (grid b') = length (grid b)"
  by (auto simp: put_Inr)

lemma movePiece_notfound:
  "Obj p \<notin> set (cells b) \<Longrightarrow> movePiece b p t = (Some PieceNotFound, b)"
proof -
  assume "Obj p \<notin> set (cells b)"
  then have "getPosition p b = Inl PieceNotFound" by (simp add: getPosition_Inl)
  then show ?thesis by (simp add: movePiece_def)
qed

lemma movePiece_found:
  assumes "getPosition p b = Inr A"
  shows "\<exists>b1. put b (row A) (column A) Null = Inr b1 \<and>
           movePiece b p t =
             (case put b1 (row (toPosition t)) (column (toPosition t)) (Obj p) of
                Inl e \<Rightarrow> (Some e, b1)
              | Inr b2 \<Rightarrow> (None, b2))"
proof -
  from getPosition_Inr [OF assms] have "0 \<le> row A" "row A < int (length (grid b))" by auto
  then obtain b1 where "put b (row A) (column A) Null = Inr b1"
    by (auto simp: put_Inr)
  then show ?thesis using assms by (simp add: movePiece_def Let_def)
qed

section \<open>Board: movePiece\<close>

lemma getPieceAt_toPosition: "getPieceAt b t = getPieceAt b (AtPosition (toPosition t))"
  by (simp add: getPieceAt_def)

lemma movePiece_done:
  assumes pos: "getPosition p b = Inr A"
    and row: "0 \<le> row (toPosition t)" "row (toPosition t) < int (length (grid b))"
  shows "\<exists>b1 b2. put b (row A) (column A) Null = Inr b1 \<and>
           put b1 (row (toPosition t)) (column (toPosition t)) (Obj p) = Inr b2 \<and>
           movePiece b p t = (None, b2)"
proof -
  from movePiece_found [OF pos, of t] obtain b1 where
    b1: "put b (row A) (column A) Null = Inr b1" and
    mv: "movePiece b p t =
      (case put b1 (row (toPosition t)) (column (toPosition t)) (Obj p) of
         Inl e \<Rightarrow> (Some e, b1) | Inr b2 \<Rightarrow> (None, b2))"
    by blast
  from put_preserves_length [OF b1] row obtain b2 where
    b2: "put b1 (row (toPosition t)) (column (toPosition t)) (Obj p) = Inr b2"
    by (auto simp: put_Inr)
  with b1 mv show ?thesis by simp
qed

lemma movePiece_cells:
  assumes pos: "getPosition p b = Inr A"
    and row: "0 \<le> row (toPosition t)" "row (toPosition t) < int (length (grid b))"
  shows "fst (movePiece b p t) = None \<and>
         getPieceAt (snd (movePiece b p t)) (AtPosition x) =
           (if x = toPosition t then Inr (Obj p)
            else if x = A then Inr Null
            else getPieceAt b (AtPosition x))"
proof -
  from movePiece_done [OF pos row] obtain b1 b2 where
    b1: "put b (row A) (column A) Null = Inr b1" and
    b2: "put b1 (row (toPosition t)) (column (toPosition t)) (Obj p) = Inr b2" and
    mv: "movePiece b p t = (None, b2)"
    by blast
  have eq: "(row x = row y \<and> column x = column y) = (x = y)" for x y :: position
    by auto
  show ?thesis
    unfolding mv using getPieceAt_put [OF b2, of x] getPieceAt_put [OF b1, of x]
    by (simp add: eq)
qed

text \<open>
  Claim C5, as the code has it. \<^verbatim>\<open>movePiece\<close> fails with \<^verbatim>\<open>'Piece not found on board.'\<close>
  exactly when the piece is in no cell of the grid, and then the grid is unchanged. When
  the piece is on the grid and the row index of the destination is a row of the grid, the
  move completes: no error, the destination holds the piece and the origin (if it is
  another square) is empty.
\<close>

theorem movePiece_outcomes:
  "(fst (movePiece b p t) = Some PieceNotFound \<longleftrightarrow> Obj p \<notin> set (cells b)) \<and>
   (Obj p \<notin> set (cells b) \<longrightarrow> snd (movePiece b p t) = b) \<and>
   (getPosition p b = Inr A \<and>
    0 \<le> row (toPosition t) \<and> row (toPosition t) < int (length (grid b)) \<longrightarrow>
      fst (movePiece b p t) = None \<and>
      getPieceAt (snd (movePiece b p t)) t = Inr (Obj p) \<and>
      (toPosition t \<noteq> A \<longrightarrow> getPieceAt (snd (movePiece b p t)) (AtPosition A) = Inr Null))"
proof (intro conjI impI)
  show "fst (movePiece b p t) = Some PieceNotFound \<longleftrightarrow> Obj p \<notin> set (cells b)"
  proof (cases "getPosition p b")
    case (Inl e)
    then have "Obj p \<notin> set (cells b)" by (simp add: getPosition_Inl)
    then show ?thesis by (simp add: movePiece_notfound)
  next
    case (Inr A')
    then have "Obj p \<in> set (cells b)" using getPosition_Inl [of p b PieceNotFound] by auto
    moreover have "fst (movePiece b p t) \<noteq> Some PieceNotFound"
    proof -
      from movePiece_found [OF Inr, of t] obtain b1 where
        mv: "movePiece b p t =
          (case put b1 (row (toPosition t)) (column (toPosition t)) (Obj p) of
             Inl e \<Rightarrow> (Some e, b1) | Inr b2 \<Rightarrow> (None, b2))"
        by blast
      show ?thesis
      proof (cases "put b1 (row (toPosition t)) (column (toPosition t)) (Obj p)")
        case (Inl e)
        then have "e = TypeError" by (simp add: put_Inl)
        with Inl mv show ?thesis by simp
      next
        case (Inr b2)
        with mv show ?thesis by simp
      qed
    qed
    ultimately show ?thesis by simp
  qed
next
  assume "Obj p \<notin> set (cells b)"
  then show "snd (movePiece b p t) = b" by (simp add: movePiece_notfound)
next
  assume a: "getPosition p b = Inr A \<and>
    0 \<le> row (toPosition t) \<and> row (toPosition t) < int (length (grid b))"
  then show "fst (movePiece b p t) = None" using movePiece_cells [of p b A t] by simp
  from a show "getPieceAt (snd (movePiece b p t)) t = Inr (Obj p)"
    using movePiece_cells [of p b A t "toPosition t"] getPieceAt_toPosition by simp
  assume "toPosition t \<noteq> A"
  with a show "getPieceAt (snd (movePiece b p t)) (AtPosition A) = Inr Null"
    using movePiece_cells [of p b A t A] by auto
qed

theorem movePiece_outcomes_e2e4:
  "getPosition \<lparr>ident = 9, ptype = Pawn, color = White\<rparr> startBoard = Inr \<lparr>row = 6, column = 4\<rparr> \<and>
   toPosition (AtString ''e4'') = \<lparr>row = 4, column = 4\<rparr> \<and>
   fst (movePiece startBoard \<lparr>ident = 9, ptype = Pawn, color = White\<rparr> (AtString ''e4'')) = None \<and>
   getPieceAt (snd (movePiece startBoard \<lparr>ident = 9, ptype = Pawn, color = White\<rparr> (AtString ''e4'')))
     (AtString ''e4'') = Inr (Obj \<lparr>ident = 9, ptype = Pawn, color = White\<rparr>) \<and>
   getPieceAt (snd (movePiece startBoard \<lparr>ident = 9, ptype = Pawn, color = White\<rparr> (AtString ''e4'')))
     (AtPosition \<lparr>row = 6, column = 4\<rparr>) = Inr Null \<and>
   Obj \<lparr>ident = 40, ptype = Pawn, color = White\<rparr> \<notin> set (cells startBoard) \<and>
   movePiece startBoard \<lparr>ident = 40, ptype = Pawn, color = White\<rparr> (AtString ''e4'') =
     (Some PieceNotFound, startBoard)"
proof -
  have g: "getPosition \<lparr>ident = 9, ptype = Pawn, color = White\<rparr> startBoard = Inr \<lparr>row = 6, column = 4\<rparr>"
    by code_simp
  have t: "toPosition (AtString ''e4'') = \<lparr>row = 4, column = 4\<rparr>"
    by code_simp
  have l: "length (grid startBoard) = 8" by code_simp
  have n: "Obj \<lparr>ident = 40, ptype = Pawn, color = White\<rparr> \<notin> set (cells startBoard)"
    by code_simp
  from movePiece_outcomes [of startBoard "\<lparr>ident = 9, ptype = Pawn, color = White\<rparr>" "AtString ''e4''"
      "\<lparr>row = 6, column = 4\<rparr>"]
    movePiece_outcomes [of startBoard "\<lparr>ident = 40, ptype = Pawn, color = White\<rparr>" "AtString ''e4''"
      "\<lparr>row = 6, column = 4\<rparr>"]
    g t l n
  show ?thesis by (simp add: prod_eq_iff)
qed

text \<open>
  Claim C5 as stated fails: with the destination \<open>e9\<close>, whose rank is no row of the grid,
  \<^verbatim>\<open>movePiece\<close> clears the origin and then fails on the second assignment. The call
  fails although the piece was on the grid, the grid has changed, and the piece is in no
  cell any more.
\<close>

theorem movePiece_partial:
  "Obj \<lparr>ident = 9, ptype = Pawn, color = White\<rparr> \<in> set (cells startBoard) \<and>
   fst (movePiece startBoard \<lparr>ident = 9, ptype = Pawn, color = White\<rparr> (AtString ''e9'')) =
     Some TypeError \<and>
   snd (movePiece startBoard \<lparr>ident = 9, ptype = Pawn, color = White\<rparr> (AtString ''e9'')) \<noteq>
     startBoard \<and>
   Obj \<lparr>ident = 9, ptype = Pawn, color = White\<rparr> \<notin>
     set (cells (snd (movePiece startBoard \<lparr>ident = 9, ptype = Pawn, color = White\<rparr>
       (AtString ''e9''))))"
  by code_simp

section \<open>The grid-membership invariant\<close>

lemma array_get_backRank:
  "array_get (backRank n c) j =
     (if 0 \<le> j \<and> j < 8
      then Obj \<lparr>ident = n + 2 * nat j, ptype = pieceOrder ! nat j, color = c\<rparr>
      else Undefined)"
  by (auto simp: array_get_def backRank_def)

lemma array_get_pawnRank:
  "array_get (pawnRank n c) j =
     (if 0 \<le> j \<and> j < 8 then Obj \<lparr>ident = n + 2 * nat j, ptype = Pawn, color = c\<rparr>
      else Undefined)"
  by (auto simp: array_get_def pawnRank_def)

lemma array_get_fill:
  "array_get (Array_fill 8 Null) j = (if 0 \<le> j \<and> j < 8 then Null else Undefined)"
  by (auto simp: array_get_def Array_fill_def)

lemma initial_cell:
  assumes "initialize b0 n = Inr (b, n')"
    and "getPieceAt b (AtPosition x) = Inr (Obj p)"
  shows "0 \<le> column x \<and> column x < 8 \<and>
     (row x = 0 \<and> ident p = n + 16 + 2 * nat (column x) \<or>
      row x = 1 \<and> ident p = n + 2 * nat (column x) \<or>
      row x = 6 \<and> ident p = n + 1 + 2 * nat (column x) \<or>
      row x = 7 \<and> ident p = n + 17 + 2 * nat (column x))"
proof -
  from assms(1) have g: "grid b = [backRank (n + 16) Black, pawnRank n Black,
      Array_fill 8 Null, Array_fill 8 Null, Array_fill 8 Null, Array_fill 8 Null,
      pawnRank (n + 1) White, backRank (n + 17) White]"
    by (auto simp: initialize_eq)
  from assms(2) have r: "0 \<le> row x" "row x < 8"
    by (auto simp: getPieceAt_def array_index_def g split: if_splits)
  then have "row x = 0 \<or> row x = 1 \<or> row x = 2 \<or> row x = 3 \<or> row x = 4 \<or> row x = 5 \<or>
      row x = 6 \<or> row x = 7" by arith
  then show ?thesis
    using assms(2)
    by (elim disjE)
      (auto simp: getPieceAt_def array_index_def g array_get_backRank array_get_pawnRank
        array_get_fill split: if_splits)
qed

lemma oneCellEach_initialize:
  assumes "initialize b0 n = Inr (b, n')"
  shows "oneCellEach b"
  unfolding oneCellEach_def
proof (intro allI impI)
  fix p x y
  assume "getPieceAt b (AtPosition x) = Inr (Obj p) \<and> getPieceAt b (AtPosition y) = Inr (Obj p)"
  with initial_cell [OF assms, of x p] initial_cell [OF assms, of y p]
  have "row x = row y \<and> column x = column y" by auto arith+
  then show "x = y" by simp
qed

lemma oneCellEach_movePiece:
  assumes inv: "oneCellEach b"
  shows "oneCellEach (snd (movePiece b p t))"
proof (cases "getPosition p b")
  case (Inl e)
  then have "movePiece b p t = (Some e, b)" by (simp add: movePiece_def)
  with inv show ?thesis by simp
next
  case (Inr A)
  from movePiece_found [OF Inr, of t] obtain b1 where
    b1: "put b (row A) (column A) Null = Inr b1" and
    mv: "movePiece b p t =
      (case put b1 (row (toPosition t)) (column (toPosition t)) (Obj p) of
         Inl e \<Rightarrow> (Some e, b1) | Inr b2 \<Rightarrow> (None, b2))"
    by blast
  have eq: "(row x = row y \<and> column x = column y) = (x = y)" for x y :: position
    by auto
  from getPosition_Inr [OF Inr] have atA: "getPieceAt b (AtPosition A) = Inr (Obj p)" by simp
  have g1: "getPieceAt b1 (AtPosition x) =
      (if x = A then Inr Null else getPieceAt b (AtPosition x))" for x
    using getPieceAt_put [OF b1, of x] by (simp add: eq)
  have nop: "getPieceAt b1 (AtPosition x) \<noteq> Inr (Obj p)" for x
    using inv atA unfolding oneCellEach_def g1 by auto
  have inv1: "oneCellEach b1"
    using inv unfolding oneCellEach_def g1 by (auto split: if_splits)
  show ?thesis
  proof (cases "put b1 (row (toPosition t)) (column (toPosition t)) (Obj p)")
    case (Inl e)
    with mv inv1 show ?thesis by simp
  next
    case (Inr b2)
    have g2: "getPieceAt b2 (AtPosition x) =
        (if x = toPosition t then Inr (Obj p) else getPieceAt b1 (AtPosition x))" for x
      using getPieceAt_put [OF Inr, of x] by (simp add: eq)
    have "oneCellEach b2"
      unfolding oneCellEach_def
    proof (intro allI impI)
      fix q x y
      assume a: "getPieceAt b2 (AtPosition x) = Inr (Obj q) \<and>
        getPieceAt b2 (AtPosition y) = Inr (Obj q)"
      show "x = y"
      proof (cases "q = p")
        case True
        with a nop [of x] nop [of y] show ?thesis
          unfolding g2 by (auto split: if_splits)
      next
        case False
        with a have "getPieceAt b1 (AtPosition x) = Inr (Obj q)"
          "getPieceAt b1 (AtPosition y) = Inr (Obj q)"
          unfolding g2 by (auto split: if_splits)
        with inv1 show ?thesis unfolding oneCellEach_def by blast
      qed
    qed
    with mv Inr show ?thesis by simp
  qed
qed

lemma reachable_oneCellEach: "reachable b \<Longrightarrow> oneCellEach b"
proof (induction rule: reachable.induct)
  case (construct n b n')
  then show ?case using oneCellEach_initialize by (simp add: Board_new_def)
next
  case (reinitialize b n b' n')
  then show ?case using oneCellEach_initialize by blast
next
  case (move b p t e b')
  then show ?case using oneCellEach_movePiece [of b p t] by simp
qed

lemma count_list_le_1:
  assumes "\<And>i j. i < length xs \<Longrightarrow> j < length xs \<Longrightarrow> xs ! i = v \<Longrightarrow> xs ! j = v \<Longrightarrow> i = j"
  shows "count_list xs v \<le> 1"
  using assms
proof (induction xs)
  case Nil
  then show ?case by simp
next
  case (Cons x xs)
  have ih: "count_list xs v \<le> 1"
  proof (rule Cons.IH)
    fix i j
    assume "i < length xs" "j < length xs" "xs ! i = v" "xs ! j = v"
    with Cons.prems [of "Suc i" "Suc j"] show "i = j" by simp
  qed
  show ?case
  proof (cases "x = v")
    case False
    with ih show ?thesis by simp
  next
    case True
    have "v \<notin> set xs"
    proof
      assume "v \<in> set xs"
      then obtain i where "i < length xs" "xs ! i = v" by (auto simp: in_set_conv_nth)
      with Cons.prems [of 0 "Suc i"] True show False by simp
    qed
    then have "count_list xs v = 0" by (simp add: count_list_0_iff)
    with True show ?thesis by simp
  qed
qed

lemma count_list_concat_le_1:
  assumes "\<And>r c r' c'. r < length g \<Longrightarrow> c < length (g ! r) \<Longrightarrow> r' < length g \<Longrightarrow>
     c' < length (g ! r') \<Longrightarrow> g ! r ! c = v \<Longrightarrow> g ! r' ! c' = v \<Longrightarrow> r = r' \<and> c = c'"
  shows "count_list (concat g) v \<le> 1"
  using assms
proof (induction g)
  case Nil
  then show ?case by simp
next
  case (Cons x g)
  have ih: "count_list (concat g) v \<le> 1"
  proof (rule Cons.IH)
    fix r c r' c'
    assume "r < length g" "c < length (g ! r)" "r' < length g" "c' < length (g ! r')"
      "g ! r ! c = v" "g ! r' ! c' = v"
    with Cons.prems [of "Suc r" c "Suc r'" c'] show "r = r' \<and> c = c'" by simp
  qed
  have row: "count_list x v \<le> 1"
  proof (rule count_list_le_1)
    fix i j
    assume "i < length x" "j < length x" "x ! i = v" "x ! j = v"
    with Cons.prems [of 0 i 0 j] show "i = j" by simp
  qed
  show ?case
  proof (cases "v \<in> set x")
    case False
    then have "count_list x v = 0" by (simp add: count_list_0_iff)
    with ih show ?thesis by simp
  next
    case True
    then obtain i where i: "i < length x" "x ! i = v" by (auto simp: in_set_conv_nth)
    have "v \<notin> set (concat g)"
    proof
      assume "v \<in> set (concat g)"
      then obtain y where "y \<in> set g" "v \<in> set y" by auto
      then obtain r c where "r < length g" "c < length (g ! r)" "g ! r ! c = v"
        by (metis in_set_conv_nth)
      with Cons.prems [of 0 i "Suc r" c] i show False by simp
    qed
    then have "count_list (concat g) v = 0" by (simp add: count_list_0_iff)
    with row show ?thesis by simp
  qed
qed

lemma cell_lookup:
  "r < length (grid b) \<Longrightarrow> c < length (elems (grid b ! r)) \<Longrightarrow>
   getPieceAt b (AtPosition \<lparr>row = int r, column = int c\<rparr>) = Inr (elems (grid b ! r) ! c)"
  by (simp add: getPieceAt_def array_index_def array_get_def)

lemma oneCellEach_count:
  assumes "oneCellEach b"
  shows "count_list (cells b) (Obj p) \<le> 1"
  unfolding cells_def
proof (rule count_list_concat_le_1)
  fix r c r' c'
  assume a: "r < length (map elems (grid b))" "c < length (map elems (grid b) ! r)"
    "r' < length (map elems (grid b))" "c' < length (map elems (grid b) ! r')"
    "map elems (grid b) ! r ! c = Obj p" "map elems (grid b) ! r' ! c' = Obj p"
  then have "getPieceAt b (AtPosition \<lparr>row = int r, column = int c\<rparr>) = Inr (Obj p)"
    "getPieceAt b (AtPosition \<lparr>row = int r', column = int c'\<rparr>) = Inr (Obj p)"
    using cell_lookup [of r b c] cell_lookup [of r' b c'] by simp_all
  with assms have "\<lparr>row = int r, column = int c\<rparr> = \<lparr>row = int r', column = int c'\<rparr>"
    unfolding oneCellEach_def by blast
  then show "r = r' \<and> c = c'" by simp
qed

text \<open>
  Claim C9: on every reachable board, a piece is in at most one cell of the grid; and
  more, it is read at one position at most: two lookups that return the same piece are
  lookups of the same position.
\<close>

theorem piece_in_one_cell:
  "reachable b \<Longrightarrow>
   count_list (cells b) (Obj p) \<le> 1 \<and>
   (\<forall>x y. getPieceAt b (AtPosition x) = Inr (Obj p) \<and>
          getPieceAt b (AtPosition y) = Inr (Obj p) \<longrightarrow> x = y)"
  using reachable_oneCellEach [of b] oneCellEach_count [of b p]
  unfolding oneCellEach_def by blast

lemma reachable_play: "reachable b \<Longrightarrow> reachable (play b moves)"
proof (induction moves arbitrary: b)
  case Nil
  then show ?case by simp
next
  case (Cons m moves)
  obtain s t where m: "m = (s, t)" by (cases m)
  have step: "reachable (snd (movePiece b p (AtString t)))" for p
    using Cons.prems reachable.move [of b p "AtString t"] by (metis prod.collapse)
  show ?case
    using Cons.IH [OF Cons.prems] Cons.IH [OF step]
    by (simp add: m split: sum.splits jsval.splits)
qed

lemma reachable_startBoard: "reachable startBoard"
proof -
  have "Board_new 0 = Inr (startBoard, 32)" by code_simp
  then show ?thesis by (rule reachable.construct)
qed

theorem piece_in_one_cell_e4:
  "reachable (play startBoard [(''e2'', ''e4'')]) \<and>
   getPieceAt (play startBoard [(''e2'', ''e4'')]) (AtPosition \<lparr>row = 4, column = 4\<rparr>) =
     Inr (Obj \<lparr>ident = 9, ptype = Pawn, color = White\<rparr>) \<and>
   count_list (cells (play startBoard [(''e2'', ''e4'')]))
     (Obj \<lparr>ident = 9, ptype = Pawn, color = White\<rparr>) = 1"
proof -
  have r: "reachable (play startBoard [(''e2'', ''e4'')])"
    by (rule reachable_play [OF reachable_startBoard])
  have g: "getPieceAt (play startBoard [(''e2'', ''e4'')]) (AtPosition \<lparr>row = 4, column = 4\<rparr>) =
     Inr (Obj \<lparr>ident = 9, ptype = Pawn, color = White\<rparr>)"
    by code_simp
  have c: "count_list (cells (play startBoard [(''e2'', ''e4'')]))
     (Obj \<lparr>ident = 9, ptype = Pawn, color = White\<rparr>) = 1"
    by code_simp
  from piece_in_one_cell [OF r, of "\<lparr>ident = 9, ptype = Pawn, color = White\<rparr>"] r g c
  show ?thesis by simp
qed

section \<open>Pawn\<close>

lemma Pawn_diagonal_Inr:
  "Pawn_diagonal b this D squares = Inr squares' \<Longrightarrow>
   \<exists>l. squares' = squares @ l \<and>
     (l = [] \<or> l = [D] \<and> (\<exists>q. getPieceAt b (AtPosition D) = Inr (Obj q)))"
  by (auto simp: Pawn_diagonal_def truthy_def split: sum.splits if_splits jsval.splits)

lemma Pawn_forward_Inr:
  "Pawn_forward b this A d = Inr fw \<Longrightarrow>
   fw = (if getPieceAt b (AtPosition (addOffset A d 0)) = Inr Null then
           (if color this = White \<and> row A = 6 \<or> color this = Black \<and> row A = 1 then
              (if getPieceAt b (AtPosition (addOffset A (d * 2) 0)) = Inr Null
               then [addOffset A d 0, addOffset A (d * 2) 0] else [addOffset A d 0])
            else [addOffset A d 0])
         else [])"
  by (auto simp: Pawn_forward_def Let_def WHITE_PAWN_ROW_def BLACK_PAWN_ROW_def
      split: sum.splits if_splits)

lemma Pawn_availableSquares_Inr:
  assumes "getPosition this b = Inr A" and "Pawn_availableSquares b this = Inr squares"
  shows "\<exists>fw l r. Pawn_forward b this A (pawnDirection this) = Inr fw \<and>
           squares = fw @ l @ r \<and>
           (l = [] \<or> l = [addOffset A (pawnDirection this) (- 1)] \<and>
              (\<exists>q. getPieceAt b (AtPosition (addOffset A (pawnDirection this) (- 1))) = Inr (Obj q))) \<and>
           (r = [] \<or> r = [addOffset A (pawnDirection this) 1] \<and>
              (\<exists>q. getPieceAt b (AtPosition (addOffset A (pawnDirection this) 1)) = Inr (Obj q)))"
proof -
  let ?d = "pawnDirection this"
  from assms obtain fw s1 where
    fw: "Pawn_forward b this A ?d = Inr fw" and
    s1: "Pawn_diagonal b this (addOffset A ?d (- 1)) fw = Inr s1" and
    s2: "Pawn_diagonal b this (addOffset A ?d 1) s1 = Inr squares"
    by (auto simp: Pawn_availableSquares_def pawnDirection_def Let_def split: sum.splits)
  from Pawn_diagonal_Inr [OF s1] obtain l where
    l: "s1 = fw @ l" "l = [] \<or> l = [addOffset A ?d (- 1)] \<and>
      (\<exists>q. getPieceAt b (AtPosition (addOffset A ?d (- 1))) = Inr (Obj q))"
    by blast
  from Pawn_diagonal_Inr [OF s2] obtain r where
    r: "squares = s1 @ r" "r = [] \<or> r = [addOffset A ?d 1] \<and>
      (\<exists>q. getPieceAt b (AtPosition (addOffset A ?d 1)) = Inr (Obj q))"
    by blast
  from l(1) r(1) have "squares = fw @ l @ r" by simp
  with fw l(2) r(2) show ?thesis by blast
qed


lemma getPieceAt_Inr_iff:
  "(\<exists>v. getPieceAt b (AtPosition s) = Inr v) \<longleftrightarrow> 0 \<le> row s \<and> row s < int (length (grid b))"
  by (auto simp: getPieceAt_def array_index_def)

lemma Pawn_diagonal_total:
  "0 \<le> row D \<Longrightarrow> row D < int (length (grid b)) \<Longrightarrow>
   \<exists>squares'. Pawn_diagonal b this D squares = Inr squares'"
  using getPieceAt_Inr_iff [of b D] by (auto simp: Pawn_diagonal_def)

lemma Pawn_forward_start:
  assumes "row A = pawnStartRow this"
    and "getPieceAt b (AtPosition (ahead this A 1)) = Inr Null"
    and "getPieceAt b (AtPosition (ahead this A 2)) = Inr Null"
  shows "Pawn_forward b this A (pawnDirection this) = Inr [ahead this A 1, ahead this A 2]"
  using assms
  by (cases "color this")
    (simp_all add: Pawn_forward_def pawnStartRow_def ahead_def Let_def mult.commute)

lemma Pawn_availableSquares_total:
  assumes pos: "getPosition this b = Inr A"
    and fw: "Pawn_forward b this A (pawnDirection this) = Inr fw"
    and r: "0 \<le> row (ahead this A 1)" "row (ahead this A 1) < int (length (grid b))"
  shows "\<exists>squares. Pawn_availableSquares b this = Inr squares"
proof -
  let ?d = "pawnDirection this"
  from r have r1: "0 \<le> row (addOffset A ?d (- 1))" "row (addOffset A ?d (- 1)) < int (length (grid b))"
    and r2: "0 \<le> row (addOffset A ?d 1)" "row (addOffset A ?d 1) < int (length (grid b))"
    by (simp_all add: ahead_def addOffset_def)
  from Pawn_diagonal_total [OF r1, of this fw] obtain s1 where
    s1: "Pawn_diagonal b this (addOffset A ?d (- 1)) fw = Inr s1" by blast
  from Pawn_diagonal_total [OF r2, of this s1] obtain s2 where
    s2: "Pawn_diagonal b this (addOffset A ?d 1) s1 = Inr s2" by blast
  from pos fw s1 s2 show ?thesis
    by (simp add: Pawn_availableSquares_def pawnDirection_def Let_def)
qed

lemma Pawn_diagonal_capture:
  "Pawn_diagonal b this D squares = Inr squares' \<Longrightarrow>
   squares' = squares @
     filter (\<lambda>s. case occupant b s of None \<Rightarrow> False | Some q \<Rightarrow> color q \<noteq> color this) [D]"
  by (auto simp: Pawn_diagonal_def occupant_def truthy_def color_of_def
      split: sum.splits jsval.splits if_splits)

lemma Pawn_availableSquares_exact:
  assumes "getPosition this b = Inr A" and "Pawn_availableSquares b this = Inr squares"
  shows "\<exists>fw. Pawn_forward b this A (pawnDirection this) = Inr fw \<and>
           squares = fw @ captures b this A"
proof -
  let ?d = "pawnDirection this"
  from assms obtain fw s1 where
    fw: "Pawn_forward b this A ?d = Inr fw" and
    s1: "Pawn_diagonal b this (addOffset A ?d (- 1)) fw = Inr s1" and
    s2: "Pawn_diagonal b this (addOffset A ?d 1) s1 = Inr squares"
    by (auto simp: Pawn_availableSquares_def pawnDirection_def Let_def split: sum.splits)
  from Pawn_diagonal_capture [OF s1] Pawn_diagonal_capture [OF s2]
  have "squares = fw @ captures b this A" by (simp add: captures_def)
  with fw show ?thesis by blast
qed

lemma forwardSquares_captures: "forwardSquares A (captures b this A) = []"
  by (simp add: forwardSquares_def captures_def addOffset_def)

lemma forwardSquares_forward:
  "Pawn_forward b this A d = Inr fw \<Longrightarrow> forwardSquares A fw = fw"
  by (drule Pawn_forward_Inr) (simp add: forwardSquares_def addOffset_def)

lemma forwardSquares_append:
  "forwardSquares A (xs @ ys) = forwardSquares A xs @ forwardSquares A ys"
  by (simp add: forwardSquares_def)

lemma ahead2_not_capture: "ahead this A 2 \<notin> set (captures b this A)"
  by (auto simp: captures_def ahead_def addOffset_def)

text \<open>
  Claim C8, for a pawn of either colour standing at \<open>A\<close>. On its starting row with the
  two squares ahead empty, \<^verbatim>\<open>availableSquares\<close> returns exactly those two squares
  followed by the diagonal captures, so its forward destinations are those two. Every
  result is the forward destinations followed by the diagonal captures; on any other row
  there is at most one forward destination; and the square two steps ahead is a
  destination exactly when the pawn stands on its starting row and both squares ahead are
  empty.
\<close>

theorem pawn_double_step:
  assumes pawn: "ptype this = Pawn" and pos: "getPosition this b = Inr A"
  shows
    "(row A = pawnStartRow this \<and>
      getPieceAt b (AtPosition (ahead this A 1)) = Inr Null \<and>
      getPieceAt b (AtPosition (ahead this A 2)) = Inr Null \<longrightarrow>
        availableSquares b this =
          Some (Inr ([ahead this A 1, ahead this A 2] @ captures b this A)) \<and>
        forwardSquares A ([ahead this A 1, ahead this A 2] @ captures b this A) =
          [ahead this A 1, ahead this A 2]) \<and>
     (\<forall>squares. availableSquares b this = Some (Inr squares) \<longrightarrow>
        squares = forwardSquares A squares @ captures b this A \<and>
        (row A \<noteq> pawnStartRow this \<longrightarrow> length (forwardSquares A squares) \<le> 1) \<and>
        (ahead this A 2 \<in> set squares \<longleftrightarrow>
           row A = pawnStartRow this \<and>
           getPieceAt b (AtPosition (ahead this A 1)) = Inr Null \<and>
           getPieceAt b (AtPosition (ahead this A 2)) = Inr Null))"
proof (intro conjI impI allI)
  let ?d = "pawnDirection this"
  assume a: "row A = pawnStartRow this \<and>
      getPieceAt b (AtPosition (ahead this A 1)) = Inr Null \<and>
      getPieceAt b (AtPosition (ahead this A 2)) = Inr Null"
  then have fw: "Pawn_forward b this A ?d = Inr [ahead this A 1, ahead this A 2]"
    by (simp add: Pawn_forward_start)
  from a getPieceAt_Inr_iff [of b "ahead this A 1"]
  have r: "0 \<le> row (ahead this A 1)" "row (ahead this A 1) < int (length (grid b))" by auto
  from Pawn_availableSquares_total [OF pos fw r] obtain squares where
    sq: "Pawn_availableSquares b this = Inr squares" by blast
  from Pawn_availableSquares_exact [OF pos sq] fw
  have "squares = [ahead this A 1, ahead this A 2] @ captures b this A" by simp
  with sq pawn
  show "availableSquares b this =
      Some (Inr ([ahead this A 1, ahead this A 2] @ captures b this A))"
    by (simp add: availableSquares_def)
  from forwardSquares_forward [OF fw] forwardSquares_captures [of A b this]
  show "forwardSquares A ([ahead this A 1, ahead this A 2] @ captures b this A) =
      [ahead this A 1, ahead this A 2]"
    by (simp only: forwardSquares_append append_Nil2)
next
  let ?d = "pawnDirection this"
  fix squares
  assume "availableSquares b this = Some (Inr squares)"
  with pawn have sq: "Pawn_availableSquares b this = Inr squares"
    by (simp add: availableSquares_def)
  from Pawn_availableSquares_exact [OF pos sq] obtain fw where
    fw: "Pawn_forward b this A ?d = Inr fw" and
    split: "squares = fw @ captures b this A"
    by blast
  have fs: "forwardSquares A squares = fw"
    using forwardSquares_forward [OF fw] forwardSquares_captures [of A b this]
    by (simp only: split forwardSquares_append append_Nil2)
  with split show "squares = forwardSquares A squares @ captures b this A" by simp
  note fwd = Pawn_forward_Inr [OF fw]
  have ne: "addOffset A ?d 0 \<noteq> addOffset A (?d * 2) 0"
    by (simp add: addOffset_def pawnDirection_def)
  {
    assume "row A \<noteq> pawnStartRow this"
    with fwd have "length fw \<le> 1"
      by (cases "color this")
        (auto simp: pawnStartRow_def WHITE_PAWN_ROW_def BLACK_PAWN_ROW_def)
    with fs show "length (forwardSquares A squares) \<le> 1" by simp
  }
  have "ahead this A 2 \<in> set fw \<longleftrightarrow>
      row A = pawnStartRow this \<and>
      getPieceAt b (AtPosition (ahead this A 1)) = Inr Null \<and>
      getPieceAt b (AtPosition (ahead this A 2)) = Inr Null"
    using ne unfolding fwd
    by (cases "color this")
      (auto simp: ahead_def pawnStartRow_def WHITE_PAWN_ROW_def BLACK_PAWN_ROW_def
        mult.commute)
  with split ahead2_not_capture [of this A b]
  show "ahead this A 2 \<in> set squares \<longleftrightarrow>
      row A = pawnStartRow this \<and>
      getPieceAt b (AtPosition (ahead this A 1)) = Inr Null \<and>
      getPieceAt b (AtPosition (ahead this A 2)) = Inr Null"
    by simp
qed

theorem pawn_double_step_e2:
  "ptype \<lparr>ident = 9, ptype = Pawn, color = White\<rparr> = Pawn \<and>
   getPosition \<lparr>ident = 9, ptype = Pawn, color = White\<rparr> (play startBoard [(''d7'', ''d3'')]) =
     Inr \<lparr>row = 6, column = 4\<rparr> \<and>
   row \<lparr>row = 6, column = 4\<rparr> = pawnStartRow \<lparr>ident = 9, ptype = Pawn, color = White\<rparr> \<and>
   getPieceAt (play startBoard [(''d7'', ''d3'')]) (AtPosition \<lparr>row = 5, column = 4\<rparr>) =
     Inr Null \<and>
   getPieceAt (play startBoard [(''d7'', ''d3'')]) (AtPosition \<lparr>row = 4, column = 4\<rparr>) =
     Inr Null \<and>
   captures (play startBoard [(''d7'', ''d3'')]) \<lparr>ident = 9, ptype = Pawn, color = White\<rparr>
     \<lparr>row = 6, column = 4\<rparr> = [\<lparr>row = 5, column = 3\<rparr>] \<and>
   availableSquares (play startBoard [(''d7'', ''d3'')])
     \<lparr>ident = 9, ptype = Pawn, color = White\<rparr> =
     Some (Inr [\<lparr>row = 5, column = 4\<rparr>, \<lparr>row = 4, column = 4\<rparr>, \<lparr>row = 5, column = 3\<rparr>]) \<and>
   getPosition \<lparr>ident = 9, ptype = Pawn, color = White\<rparr> (play startBoard [(''e2'', ''d6'')]) =
     Inr \<lparr>row = 2, column = 3\<rparr> \<and>
   row \<lparr>row = 2, column = 3\<rparr> \<noteq> pawnStartRow \<lparr>ident = 9, ptype = Pawn, color = White\<rparr> \<and>
   availableSquares (play startBoard [(''e2'', ''d6'')])
     \<lparr>ident = 9, ptype = Pawn, color = White\<rparr> =
     Some (Inr [\<lparr>row = 1, column = 2\<rparr>, \<lparr>row = 1, column = 4\<rparr>]) \<and>
   [\<lparr>row = 1, column = 2\<rparr>, \<lparr>row = 1, column = 4\<rparr>] =
     forwardSquares \<lparr>row = 2, column = 3\<rparr> [\<lparr>row = 1, column = 2\<rparr>, \<lparr>row = 1, column = 4\<rparr>] @
     captures (play startBoard [(''e2'', ''d6'')]) \<lparr>ident = 9, ptype = Pawn, color = White\<rparr>
       \<lparr>row = 2, column = 3\<rparr> \<and>
   length (forwardSquares \<lparr>row = 2, column = 3\<rparr>
     [\<lparr>row = 1, column = 2\<rparr>, \<lparr>row = 1, column = 4\<rparr>]) \<le> 1"
proof -
  let ?P = "\<lparr>ident = 9, ptype = Pawn, color = White\<rparr>"
  let ?A = "\<lparr>row = 6, column = 4\<rparr>"
  let ?B = "play startBoard [(''d7'', ''d3'')]"
  let ?C = "play startBoard [(''e2'', ''d6'')]"
  let ?D = "\<lparr>row = 2, column = 3\<rparr>"
  have t: "ptype ?P = Pawn" by simp
  have g: "getPosition ?P ?B = Inr ?A" by code_simp
  have s: "row ?A = pawnStartRow ?P" by code_simp
  have a1: "ahead ?P ?A 1 = \<lparr>row = 5, column = 4\<rparr>" by code_simp
  have a2: "ahead ?P ?A 2 = \<lparr>row = 4, column = 4\<rparr>" by code_simp
  have n1: "getPieceAt ?B (AtPosition \<lparr>row = 5, column = 4\<rparr>) = Inr Null" by code_simp
  have n2: "getPieceAt ?B (AtPosition \<lparr>row = 4, column = 4\<rparr>) = Inr Null" by code_simp
  have c: "captures ?B ?P ?A = [\<lparr>row = 5, column = 3\<rparr>]" by code_simp
  have g': "getPosition ?P ?C = Inr ?D" by code_simp
  have s': "row ?D \<noteq> pawnStartRow ?P" by code_simp
  have av': "availableSquares ?C ?P =
     Some (Inr [\<lparr>row = 1, column = 2\<rparr>, \<lparr>row = 1, column = 4\<rparr>])" by code_simp
  from pawn_double_step [OF t g] s n1 n2
  have 1: "availableSquares ?B ?P =
     Some (Inr [\<lparr>row = 5, column = 4\<rparr>, \<lparr>row = 4, column = 4\<rparr>, \<lparr>row = 5, column = 3\<rparr>])"
    unfolding a1 a2 c by simp
  from pawn_double_step [OF t g'] s' av'
  have 2: "[\<lparr>row = 1, column = 2\<rparr>, \<lparr>row = 1, column = 4\<rparr>] =
     forwardSquares ?D [\<lparr>row = 1, column = 2\<rparr>, \<lparr>row = 1, column = 4\<rparr>] @ captures ?C ?P ?D"
    and 3: "length (forwardSquares ?D [\<lparr>row = 1, column = 2\<rparr>, \<lparr>row = 1, column = 4\<rparr>]) \<le> 1"
    by blast+
  from t g s n1 n2 c 1 g' s' av' 2 3 show ?thesis by blast
qed

lemma wf_lookup:
  assumes wf: "wf_board b" and r: "0 \<le> row s" "row s \<le> 7"
  shows "\<exists>v. getPieceAt b (AtPosition s) = Inr v \<and> (v \<noteq> Undefined \<longrightarrow> isOnBoard s)"
  using getPieceAt_wf [OF wf, of s] r by (auto simp: isOnBoard_def)

lemma wf_position:
  assumes wf: "wf_board b" and pos: "getPosition this b = Inr A"
  shows "isOnBoard A"
  using getPosition_Inr [OF pos] wf_row [OF wf, of "row A"] wf
  by (auto simp: isOnBoard_def wf_board_def)

lemma Pawn_diagonal_onBoard:
  assumes wf: "wf_board b" and r: "0 \<le> row D" "row D \<le> 7"
    and sq: "list_all isOnBoard squares"
  shows "\<exists>squares'. Pawn_diagonal b this D squares = Inr squares' \<and> list_all isOnBoard squares'"
proof -
  from wf_lookup [OF wf r] obtain v where
    v: "getPieceAt b (AtPosition D) = Inr v" "v \<noteq> Undefined \<longrightarrow> isOnBoard D" by blast
  show ?thesis
    using v sq by (cases v) (auto simp: Pawn_diagonal_def truthy_def)
qed

lemma Pawn_forward_onBoard:
  assumes wf: "wf_board b" and on: "isOnBoard A"
    and r: "0 \<le> row A + d" "row A + d \<le> 7"
    and r2: "color this = White \<and> row A = 6 \<or> color this = Black \<and> row A = 1 \<Longrightarrow>
             0 \<le> row A + d * 2 \<and> row A + d * 2 \<le> 7"
  shows "\<exists>fw. Pawn_forward b this A d = Inr fw \<and> list_all isOnBoard fw"
proof -
  let ?F = "addOffset A d 0" and ?G = "addOffset A (d * 2) 0"
  from on r have onF: "isOnBoard ?F" by (simp add: isOnBoard_def addOffset_def)
  from wf_cell [OF wf onF] obtain v where v: "getPieceAt b (AtPosition ?F) = Inr v" by blast
  show ?thesis
  proof (cases "v = Null \<and> (color this = White \<and> row A = 6 \<or> color this = Black \<and> row A = 1)")
    case True
    with r2 on have onG: "isOnBoard ?G" by (simp add: isOnBoard_def addOffset_def)
    from wf_cell [OF wf onG] obtain w where w: "getPieceAt b (AtPosition ?G) = Inr w" by blast
    from True v w onF onG show ?thesis
      by (simp add: Pawn_forward_def Let_def WHITE_PAWN_ROW_def BLACK_PAWN_ROW_def)
  next
    case False
    with v onF show ?thesis
      by (auto simp: Pawn_forward_def Let_def WHITE_PAWN_ROW_def BLACK_PAWN_ROW_def)
  qed
qed

text \<open>
  Claim C10, as the code has it: on an 8 by 8 grid whose rows hold nothing besides their
  eight cells, each \<^verbatim>\<open>null\<close> or a piece. A pawn that is not on the last rank of its direction
  (a white pawn on a row from 1, a black pawn on a row up to 6) gets a result from
  \<^verbatim>\<open>availableSquares\<close>, and every square of it is on the board: a diagonal off the board
  reads as \<^verbatim>\<open>undefined\<close> and is left out. For a pawn on its last rank the lookup of the
  square ahead indexes a row that does not exist, and the call ends in \<^verbatim>\<open>TypeError\<close>.
\<close>

theorem pawn_squares_on_board:
  assumes wf: "wf_board b" and pawn: "ptype this = Pawn" and pos: "getPosition this b = Inr A"
  shows
    "(color this = White \<and> row A \<ge> 1 \<or> color this = Black \<and> row A \<le> 6 \<longrightarrow>
        (\<exists>squares. availableSquares b this = Some (Inr squares) \<and>
           list_all isOnBoard squares)) \<and>
     (color this = White \<and> row A = 0 \<or> color this = Black \<and> row A = 7 \<longrightarrow>
        availableSquares b this = Some (Inl TypeError))"
proof (intro conjI impI)
  let ?d = "if color this = White then - 1 else (1::int)"
  note on = wf_position [OF wf pos]
  assume a: "color this = White \<and> row A \<ge> 1 \<or> color this = Black \<and> row A \<le> 6"
  with on have r: "0 \<le> row A + ?d" "row A + ?d \<le> 7"
    by (auto simp: isOnBoard_def)
  have r2: "color this = White \<and> row A = 6 \<or> color this = Black \<and> row A = 1 \<Longrightarrow>
      0 \<le> row A + ?d * 2 \<and> row A + ?d * 2 \<le> 7"
    by auto
  from Pawn_forward_onBoard [OF wf on r r2] obtain fw where
    fw: "Pawn_forward b this A ?d = Inr fw" "list_all isOnBoard fw" by blast
  from r have rl: "0 \<le> row (addOffset A ?d (- 1))" "row (addOffset A ?d (- 1)) \<le> 7"
    and rr: "0 \<le> row (addOffset A ?d 1)" "row (addOffset A ?d 1) \<le> 7"
    by (simp_all add: addOffset_def)
  from Pawn_diagonal_onBoard [OF wf rl fw(2), of this] obtain s1 where
    s1: "Pawn_diagonal b this (addOffset A ?d (- 1)) fw = Inr s1" "list_all isOnBoard s1"
    by blast
  from Pawn_diagonal_onBoard [OF wf rr s1(2), of this] obtain s2 where
    s2: "Pawn_diagonal b this (addOffset A ?d 1) s1 = Inr s2" "list_all isOnBoard s2"
    by blast
  from pos fw s1 s2 pawn
  show "\<exists>squares. availableSquares b this = Some (Inr squares) \<and> list_all isOnBoard squares"
    by (simp add: availableSquares_def Pawn_availableSquares_def Let_def)
next
  let ?d = "if color this = White then - 1 else (1::int)"
  assume "color this = White \<and> row A = 0 \<or> color this = Black \<and> row A = 7"
  then have "row A + ?d < 0 \<or> 7 < row A + ?d" by auto
  then have "getPieceAt b (AtPosition (addOffset A ?d 0)) = Inl TypeError"
    using getPieceAt_wf [OF wf, of "addOffset A ?d 0"] by (simp add: addOffset_def)
  then have "Pawn_forward b this A ?d = Inl TypeError"
    by (simp add: Pawn_forward_def Let_def)
  with pos pawn show "availableSquares b this = Some (Inl TypeError)"
    by (simp add: availableSquares_def Pawn_availableSquares_def Let_def)
qed

theorem pawn_squares_on_board_e2_e8:
  "wf_board startBoard \<and>
   getPosition \<lparr>ident = 9, ptype = Pawn, color = White\<rparr> startBoard = Inr \<lparr>row = 6, column = 4\<rparr> \<and>
   availableSquares startBoard \<lparr>ident = 9, ptype = Pawn, color = White\<rparr> =
     Some (Inr [\<lparr>row = 5, column = 4\<rparr>, \<lparr>row = 4, column = 4\<rparr>]) \<and>
   wf_board (play startBoard [(''e2'', ''e8'')]) \<and>
   getPosition \<lparr>ident = 9, ptype = Pawn, color = White\<rparr> (play startBoard [(''e2'', ''e8'')]) =
     Inr \<lparr>row = 0, column = 4\<rparr> \<and>
   availableSquares (play startBoard [(''e2'', ''e8'')]) \<lparr>ident = 9, ptype = Pawn, color = White\<rparr> =
     Some (Inl TypeError)"
proof -
  let ?P = "\<lparr>ident = 9, ptype = Pawn, color = White\<rparr>"
  let ?B = "play startBoard [(''e2'', ''e8'')]"
  have t: "ptype ?P = Pawn" by simp
  have w1: "wf_board startBoard" by code_simp
  have g1: "getPosition ?P startBoard = Inr \<lparr>row = 6, column = 4\<rparr>" by code_simp
  have a1: "availableSquares startBoard ?P =
     Some (Inr [\<lparr>row = 5, column = 4\<rparr>, \<lparr>row = 4, column = 4\<rparr>])" by code_simp
  have w2: "wf_board ?B" by code_simp
  have g2: "getPosition ?P ?B = Inr \<lparr>row = 0, column = 4\<rparr>" by code_simp
  from pawn_squares_on_board [OF w1 t g1] pawn_squares_on_board [OF w2 t g2] w1 g1 a1 w2 g2
  show ?thesis by simp
qed


text \<open>
  Claim C10 as stated fails without that condition on the board. After the moves \<open>a2\<close> to
  \<open>a4\<close> and \<open>b7\<close> to \<open>z5\<close>, the second of which stores the black pawn under the key
  \<open>-1\<close> of row 3, the white pawn on \<open>a4\<close> is not on its last rank, and
  \<^verbatim>\<open>availableSquares\<close> returns the square \<open>(3, -1)\<close>, which is off the board.
\<close>

theorem pawn_capture_off_board:
  "reachable (play startBoard [(''a2'', ''a4''), (''b7'', ''z5'')]) \<and>
   getPosition \<lparr>ident = 1, ptype = Pawn, color = White\<rparr>
     (play startBoard [(''a2'', ''a4''), (''b7'', ''z5'')]) = Inr \<lparr>row = 4, column = 0\<rparr> \<and>
   availableSquares (play startBoard [(''a2'', ''a4''), (''b7'', ''z5'')])
     \<lparr>ident = 1, ptype = Pawn, color = White\<rparr> =
     Some (Inr [\<lparr>row = 3, column = 0\<rparr>, \<lparr>row = 3, column = - 1\<rparr>]) \<and>
   \<not> isOnBoard \<lparr>row = 3, column = - 1\<rparr> \<and>
   \<not> list_all isOnBoard [\<lparr>row = 3, column = 0\<rparr>, \<lparr>row = 3, column = - 1\<rparr>]"
proof -
  let ?B = "play startBoard [(''a2'', ''a4''), (''b7'', ''z5'')]"
  have r: "reachable ?B" by (rule reachable_play [OF reachable_startBoard])
  have rest: "getPosition \<lparr>ident = 1, ptype = Pawn, color = White\<rparr> ?B = Inr \<lparr>row = 4, column = 0\<rparr> \<and>
   availableSquares ?B \<lparr>ident = 1, ptype = Pawn, color = White\<rparr> =
     Some (Inr [\<lparr>row = 3, column = 0\<rparr>, \<lparr>row = 3, column = - 1\<rparr>]) \<and>
   \<not> isOnBoard \<lparr>row = 3, column = - 1\<rparr> \<and>
   \<not> list_all isOnBoard [\<lparr>row = 3, column = 0\<rparr>, \<lparr>row = 3, column = - 1\<rparr>]"
    by code_simp
  from r rest show ?thesis by simp
qed

section \<open>The directional scan\<close>

lemma ray_0: "ray A d 0 = []"
  by (simp add: ray_def)

lemma ray_Suc: "ray A d (Suc n) = addOffset A (fst d) (snd d) # ray (addOffset A (fst d) (snd d)) d n"
proof -
  have "[1..<Suc (Suc n)] = 1 # map Suc [1..<Suc n]"
    by (simp add: upt_conv_Cons map_Suc_upt del: upt_Suc)
  then show ?thesis
    by (simp add: ray_def addOffset_def algebra_simps del: upt_Suc)
qed

lemma scanLoop_off:
  "\<not> isOnBoard (addOffset sq dr dc) \<Longrightarrow> scanLoop b this dr dc loop sq acc = Some (Inr acc)"
  using scanLoop.simps [of b this dr dc loop sq acc] by (simp add: Let_def)

lemma scanLoop_piece:
  "isOnBoard (addOffset sq dr dc) \<Longrightarrow> getPieceAt b (AtPosition (addOffset sq dr dc)) = Inr (Obj q) \<Longrightarrow>
   scanLoop b this dr dc loop sq acc =
     Some (Inr (if color q \<noteq> color this then acc @ [addOffset sq dr dc] else acc))"
  using scanLoop.simps [of b this dr dc loop sq acc]
  by (simp add: truthy_def color_of_def Let_def)

lemma scanLoop_empty:
  "isOnBoard (addOffset sq dr dc) \<Longrightarrow> getPieceAt b (AtPosition (addOffset sq dr dc)) = Inr Null \<Longrightarrow>
   scanLoop b this dr dc loop sq acc =
     (if loop then scanLoop b this dr dc loop (addOffset sq dr dc) (acc @ [addOffset sq dr dc])
      else Some (Inr (acc @ [addOffset sq dr dc])))"
  using scanLoop.simps [of b this dr dc loop sq acc]
  by (simp add: truthy_def color_of_def Let_def)

lemma wf_cell_cases:
  assumes "wf_board b" and "isOnBoard s"
  shows "getPieceAt b (AtPosition s) = Inr Null \<or> (\<exists>q. getPieceAt b (AtPosition s) = Inr (Obj q))"
proof -
  from wf_cell [OF assms] obtain v where "getPieceAt b (AtPosition s) = Inr v" "v \<noteq> Undefined"
    by auto
  then show ?thesis by (cases v) auto
qed

lemma scanLoop_specScan:
  assumes wf: "wf_board b"
  shows "\<not> isOnBoard (addOffset sq (int (Suc n) * dr) (int (Suc n) * dc)) \<Longrightarrow>
     scanLoop b this dr dc loop sq acc = Some (Inr (acc @ specScan b this loop (ray sq (dr, dc) n)))"
proof (induction n arbitrary: sq acc)
  case 0
  then show ?case by (simp add: scanLoop_off ray_0)
next
  case (Suc n)
  let ?next = "addOffset sq dr dc"
  show ?case
  proof (cases "isOnBoard ?next")
    case False
    then show ?thesis by (simp add: scanLoop_off ray_Suc)
  next
    case True
    from wf_cell_cases [OF wf True] show ?thesis
    proof
      assume e: "getPieceAt b (AtPosition ?next) = Inr Null"
      have "addOffset ?next (int (Suc n) * dr) (int (Suc n) * dc) =
          addOffset sq (int (Suc (Suc n)) * dr) (int (Suc (Suc n)) * dc)"
        by (simp add: addOffset_def algebra_simps)
      with Suc.prems have "\<not> isOnBoard (addOffset ?next (int (Suc n) * dr) (int (Suc n) * dc))"
        by simp
      from Suc.IH [OF this, of "acc @ [?next]"] e True show ?thesis
        by (cases loop) (simp_all add: scanLoop_empty ray_Suc occupant_def)
    next
      assume "\<exists>q. getPieceAt b (AtPosition ?next) = Inr (Obj q)"
      then obtain q where "getPieceAt b (AtPosition ?next) = Inr (Obj q)" by blast
      with True show ?thesis
        by (simp add: scanLoop_piece ray_Suc occupant_def)
    qed
  qed
qed


lemma off_after_8:
  fixes r :: int
  assumes "0 \<le> r" "r \<le> 7" "8 \<le> m" "d \<noteq> 0"
  shows "r + m * d < 0 \<or> 7 < r + m * d"
proof (cases "0 < d")
  case True
  then have "m * 1 \<le> m * d" using assms(3) by (intro mult_left_mono) auto
  then have "m \<le> m * d" by (simp only: mult_1_right)
  with assms show ?thesis by linarith
next
  case False
  with assms(4) have "d \<le> - 1" by simp
  then have "m * d \<le> m * (- 1)" using assms(3) by (intro mult_left_mono) auto
  then have "m * d \<le> - m" by (simp only: mult_minus_right mult_1_right)
  with assms show ?thesis by linarith
qed

lemma ray_leaves_board:
  assumes on: "isOnBoard A" and n: "7 \<le> n" and d: "(dr, dc) \<noteq> (0, 0)"
  shows "\<not> isOnBoard (addOffset A (int (Suc n) * dr) (int (Suc n) * dc))"
proof -
  from n have m: "8 \<le> int (Suc n)" by simp
  from on have r: "0 \<le> row A" "row A \<le> 7" and c: "0 \<le> column A" "column A \<le> 7"
    by (simp_all add: isOnBoard_def)
  show ?thesis
  proof (cases "dr = 0")
    case False
    from off_after_8 [OF r m False] show ?thesis
      by (auto simp: isOnBoard_def addOffset_def)
  next
    case True
    with d have "dc \<noteq> 0" by simp
    from off_after_8 [OF c m this] show ?thesis
      by (auto simp: isOnBoard_def addOffset_def)
  qed
qed

lemma scanLoop_zero:
  assumes wf: "wf_board b" and pos: "getPosition this b = Inr A" and n: "7 \<le> n"
  shows "scanLoop b this 0 0 loop A acc = Some (Inr (acc @ specScan b this loop (ray A (0, 0) n)))"
proof -
  have A: "addOffset A 0 0 = A" by (simp add: addOffset_def)
  from n obtain m where m: "n = Suc m" by (cases n) auto
  from getPosition_Inr [OF pos] have at: "getPieceAt b (AtPosition A) = Inr (Obj this)" by simp
  note on = wf_position [OF wf pos]
  have "scanLoop b this 0 0 loop A acc = Some (Inr acc)"
    using scanLoop_piece [of A 0 0 b this this loop acc] on at by (simp add: A)
  moreover have "specScan b this loop (ray A (0, 0) n) = []"
    using on at by (simp add: m ray_Suc A occupant_def)
  ultimately show ?thesis by simp
qed

lemma scanLoop_ray:
  assumes wf: "wf_board b" and pos: "getPosition this b = Inr A" and n: "7 \<le> n"
  shows "scanLoop b this dr dc loop A acc =
     Some (Inr (acc @ specScan b this loop (ray A (dr, dc) n)))"
proof (cases "(dr, dc) = (0, 0)")
  case True
  with scanLoop_zero [OF wf pos n] show ?thesis by simp
next
  case False
  from ray_leaves_board [OF wf_position [OF wf pos] n False]
  show ?thesis by (rule scanLoop_specScan [OF wf])
qed

lemma scanDirections_spec:
  assumes wf: "wf_board b" and pos: "getPosition this b = Inr A" and n: "7 \<le> n"
  shows "scanDirections b this directions loop acc =
     Some (Inr (acc @ concat (map (\<lambda>d. specScan b this loop (ray A d n)) directions)))"
proof (induction directions arbitrary: acc)
  case Nil
  then show ?case by simp
next
  case (Cons d ds)
  obtain dr dc where d: "d = (dr, dc)" by (cases d)
  show ?case
    using Cons.IH [of "acc @ specScan b this loop (ray A (dr, dc) n)"]
    by (simp add: d pos scanLoop_ray [OF wf pos n])
qed

text \<open>
  Claim C1: on an 8 by 8 grid, for a piece standing at \<open>A\<close>, any list of directions and
  either value of \<open>loop\<close>, \<^verbatim>\<open>getAvaiableSquaresInDirections\<close> returns, and its result is
  the scan of the specification: direction after direction, the walk along the squares
  reached from \<open>A\<close>. The eighth step by an offset other than \<open>(0, 0)\<close> is off the board,
  and a walk by the offset \<open>(0, 0)\<close> stops at once on the piece's own square, so any
  bound \<open>n\<close> from 7 on gives the same walk.
\<close>

theorem scan_follows_spec:
  assumes "wf_board b" and "getPosition this b = Inr A" and "7 \<le> n"
  shows "getAvaiableSquaresInDirections b this directions loop =
     Some (Inr (concat (map (\<lambda>d. specScan b this loop (ray A d n)) directions)))"
  using scanDirections_spec [OF assms, of directions loop "[]"]
  by (simp add: getAvaiableSquaresInDirections_def)

theorem scan_follows_spec_rook:
  "wf_board (play startBoard [(''a2'', ''a4'')]) \<and>
   getPosition \<lparr>ident = 17, ptype = Rook, color = White\<rparr> (play startBoard [(''a2'', ''a4'')]) =
     Inr \<lparr>row = 7, column = 0\<rparr> \<and>
   getAvaiableSquaresInDirections (play startBoard [(''a2'', ''a4'')])
     \<lparr>ident = 17, ptype = Rook, color = White\<rparr> Rook_directions True =
     Some (Inr [\<lparr>row = 6, column = 0\<rparr>, \<lparr>row = 5, column = 0\<rparr>])"
proof -
  let ?R = "\<lparr>ident = 17, ptype = Rook, color = White\<rparr>"
  let ?B = "play startBoard [(''a2'', ''a4'')]"
  have w: "wf_board ?B" by code_simp
  have g: "getPosition ?R ?B = Inr \<lparr>row = 7, column = 0\<rparr>" by code_simp
  have n: "(7::nat) \<le> 7" by simp
  have s: "concat (map (\<lambda>d. specScan ?B ?R True (ray \<lparr>row = 7, column = 0\<rparr> d 7)) Rook_directions) =
     [\<lparr>row = 6, column = 0\<rparr>, \<lparr>row = 5, column = 0\<rparr>]" by code_simp
  from scan_follows_spec [OF w g n, of Rook_directions True] w g show ?thesis
    unfolding s by simp
qed

section \<open>Committing a move\<close>

lemma specScan_subset: "B \<in> set (specScan b this loop xs) \<Longrightarrow> B \<in> set xs \<and> isOnBoard B"
  by (induction xs) (auto split: if_splits option.splits)

lemma ray_mem:
  "B \<in> set (ray A d n) \<Longrightarrow> \<exists>k. 1 \<le> k \<and> B = addOffset A (int k * fst d) (int k * snd d)"
  by (auto simp: ray_def)

lemma addOffset_ne: "dr \<noteq> 0 \<or> dc \<noteq> 0 \<Longrightarrow> addOffset A dr dc \<noteq> A"
proof
  assume a: "dr \<noteq> 0 \<or> dc \<noteq> 0" and e: "addOffset A dr dc = A"
  have "row (addOffset A dr dc) = row A + dr" "column (addOffset A dr dc) = column A + dc"
    by (simp_all add: addOffset_def)
  with e have "dr = 0 \<and> dc = 0" by simp
  with a show False by simp
qed

lemma ray_not_start:
  assumes "B \<in> set (ray A d n)" and "d \<noteq> (0, 0)"
  shows "B \<noteq> A"
proof -
  from ray_mem [OF assms(1)] obtain k where k: "1 \<le> k" "B = addOffset A (int k * fst d) (int k * snd d)"
    by blast
  from assms(2) have "fst d \<noteq> 0 \<or> snd d \<noteq> 0" by (cases d) auto
  with k(1) have "int k * fst d \<noteq> 0 \<or> int k * snd d \<noteq> 0" by auto
  from addOffset_ne [OF this] k(2) show ?thesis by simp
qed

lemma scan_destination:
  assumes wf: "wf_board b" and pos: "getPosition this b = Inr A"
    and av: "getAvaiableSquaresInDirections b this directions loop = Some (Inr squares)"
    and nz: "(0, 0) \<notin> set directions"
    and B: "B \<in> set squares"
  shows "isOnBoard B \<and> B \<noteq> A"
proof -
  have n: "(7::nat) \<le> 7" by simp
  from scanDirections_spec [OF wf pos n, of directions loop "[]"] av
  have "squares = concat (map (\<lambda>d. specScan b this loop (ray A d 7)) directions)"
    by (simp add: getAvaiableSquaresInDirections_def)
  with B obtain d where d: "d \<in> set directions" "B \<in> set (specScan b this loop (ray A d 7))"
    by auto
  from specScan_subset [OF d(2)] have "B \<in> set (ray A d 7)" "isOnBoard B" by auto
  moreover from d(1) nz have "d \<noteq> (0, 0)" by auto
  ultimately show ?thesis using ray_not_start by blast
qed

lemma wf_Inr_onBoard:
  assumes wf: "wf_board b" and g: "getPieceAt b (AtPosition s) = Inr v" and v: "v \<noteq> Undefined"
  shows "isOnBoard s"
proof -
  from g getPieceAt_Inr_iff [of b s] wf have "0 \<le> row s" "row s \<le> 7"
    by (auto simp: wf_board_def)
  from wf_lookup [OF wf this] g v show ?thesis by auto
qed

lemma pawn_destination:
  assumes wf: "wf_board b" and pos: "getPosition this b = Inr A"
    and av: "Pawn_availableSquares b this = Inr squares"
    and B: "B \<in> set squares"
  shows "isOnBoard B \<and> B \<noteq> A"
proof -
  let ?d = "pawnDirection this"
  from Pawn_availableSquares_Inr [OF pos av] obtain fw l r where
    fw: "Pawn_forward b this A ?d = Inr fw" and
    sq: "squares = fw @ l @ r" and
    l: "l = [] \<or> l = [addOffset A ?d (- 1)] \<and>
       (\<exists>q. getPieceAt b (AtPosition (addOffset A ?d (- 1))) = Inr (Obj q))" and
    r: "r = [] \<or> r = [addOffset A ?d 1] \<and>
       (\<exists>q. getPieceAt b (AtPosition (addOffset A ?d 1)) = Inr (Obj q))"
    by blast
  have d: "?d \<noteq> 0" by (simp add: pawnDirection_def)
  from B sq consider "B \<in> set fw" | "B \<in> set l" | "B \<in> set r" by auto
  then show ?thesis
  proof cases
    case 1
    note fwd = Pawn_forward_Inr [OF fw]
    from 1 have "B = addOffset A ?d 0 \<and> getPieceAt b (AtPosition (addOffset A ?d 0)) = Inr Null \<or>
        B = addOffset A (?d * 2) 0 \<and> getPieceAt b (AtPosition (addOffset A (?d * 2) 0)) = Inr Null"
      unfolding fwd by (auto split: if_splits)
    then have "getPieceAt b (AtPosition B) = Inr Null" "B \<noteq> A"
      using d addOffset_ne [of ?d 0 A] addOffset_ne [of "?d * 2" 0 A] by auto
    with wf_Inr_onBoard [OF wf this(1)] show ?thesis by simp
  next
    case 2
    with l obtain q where "B = addOffset A ?d (- 1)" "getPieceAt b (AtPosition B) = Inr (Obj q)"
      by auto
    with wf_Inr_onBoard [OF wf this(2)] addOffset_ne [of ?d "- 1" A] show ?thesis by auto
  next
    case 3
    with r obtain q where "B = addOffset A ?d 1" "getPieceAt b (AtPosition B) = Inr (Obj q)"
      by auto
    with wf_Inr_onBoard [OF wf this(2)] addOffset_ne [of ?d 1 A] show ?thesis by auto
  qed
qed

lemma destination:
  assumes wf: "wf_board b" and pos: "getPosition this b = Inr A"
    and av: "availableSquares b this = Some (Inr squares)"
    and B: "B \<in> set squares"
  shows "isOnBoard B \<and> B \<noteq> A"
proof (cases "ptype this")
  case Pawn
  with av have "Pawn_availableSquares b this = Inr squares" by (simp add: availableSquares_def)
  from pawn_destination [OF wf pos this B] show ?thesis .
next
  case Rook
  with av have "getAvaiableSquaresInDirections b this Rook_directions True = Some (Inr squares)"
    by (simp add: availableSquares_def)
  from scan_destination [OF wf pos this _ B] show ?thesis by (simp add: Rook_directions_def)
next
  case Knight
  with av have "getAvaiableSquaresInDirections b this Knight_directions False = Some (Inr squares)"
    by (simp add: availableSquares_def)
  from scan_destination [OF wf pos this _ B] show ?thesis by (simp add: Knight_directions_def)
next
  case Bishop
  with av have "getAvaiableSquaresInDirections b this Bishop_directions True = Some (Inr squares)"
    by (simp add: availableSquares_def)
  from scan_destination [OF wf pos this _ B] show ?thesis by (simp add: Bishop_directions_def)
next
  case Queen
  with av have "getAvaiableSquaresInDirections b this Queen_directions True = Some (Inr squares)"
    by (simp add: availableSquares_def)
  from scan_destination [OF wf pos this _ B] show ?thesis by (simp add: Queen_directions_def)
next
  case King
  with av have "getAvaiableSquaresInDirections b this King_directions False = Some (Inr squares)"
    by (simp add: availableSquares_def)
  from scan_destination [OF wf pos this _ B] show ?thesis by (simp add: King_directions_def)
qed

text \<open>
  Claim C2: on an 8 by 8 grid, for a piece \<open>p\<close> found at \<open>A\<close> and any destination \<open>B\<close>
  among the squares \<^verbatim>\<open>availableSquares\<close> returns for it, \<^verbatim>\<open>movePiece(p, B)\<close> completes,
  and afterwards \<^verbatim>\<open>getPieceAt(B)\<close> is \<open>p\<close> and \<^verbatim>\<open>getPieceAt(A)\<close> is \<^verbatim>\<open>null\<close>.
\<close>

theorem move_commit:
  assumes wf: "wf_board b" and pos: "getPosition p b = Inr A"
    and av: "availableSquares b p = Some (Inr squares)"
    and B: "B \<in> set squares"
  shows "fst (movePiece b p (AtPosition B)) = None \<and>
         getPieceAt (snd (movePiece b p (AtPosition B))) (AtPosition B) = Inr (Obj p) \<and>
         getPieceAt (snd (movePiece b p (AtPosition B))) (AtPosition A) = Inr Null"
proof -
  from destination [OF wf pos av B] have on: "isOnBoard B" and ne: "B \<noteq> A" by auto
  from on wf have r: "0 \<le> row (toPosition (AtPosition B))"
    "row (toPosition (AtPosition B)) < int (length (grid b))"
    by (auto simp: isOnBoard_def wf_board_def)
  from movePiece_cells [OF pos r, of B] movePiece_cells [OF pos r, of A] ne
  show ?thesis by auto
qed

theorem move_commit_knight:
  "wf_board startBoard \<and>
   getPosition \<lparr>ident = 19, ptype = Knight, color = White\<rparr> startBoard = Inr \<lparr>row = 7, column = 1\<rparr> \<and>
   availableSquares startBoard \<lparr>ident = 19, ptype = Knight, color = White\<rparr> =
     Some (Inr [\<lparr>row = 5, column = 2\<rparr>, \<lparr>row = 5, column = 0\<rparr>]) \<and>
   fst (movePiece startBoard \<lparr>ident = 19, ptype = Knight, color = White\<rparr>
     (AtPosition \<lparr>row = 5, column = 2\<rparr>)) = None \<and>
   getPieceAt (snd (movePiece startBoard \<lparr>ident = 19, ptype = Knight, color = White\<rparr>
     (AtPosition \<lparr>row = 5, column = 2\<rparr>))) (AtPosition \<lparr>row = 5, column = 2\<rparr>) =
     Inr (Obj \<lparr>ident = 19, ptype = Knight, color = White\<rparr>) \<and>
   getPieceAt (snd (movePiece startBoard \<lparr>ident = 19, ptype = Knight, color = White\<rparr>
     (AtPosition \<lparr>row = 5, column = 2\<rparr>))) (AtPosition \<lparr>row = 7, column = 1\<rparr>) = Inr Null"
proof -
  let ?N = "\<lparr>ident = 19, ptype = Knight, color = White\<rparr>"
  have w: "wf_board startBoard" by code_simp
  have g: "getPosition ?N startBoard = Inr \<lparr>row = 7, column = 1\<rparr>" by code_simp
  have a: "availableSquares startBoard ?N =
     Some (Inr [\<lparr>row = 5, column = 2\<rparr>, \<lparr>row = 5, column = 0\<rparr>])" by code_simp
  have m: "\<lparr>row = 5, column = 2\<rparr> \<in> set [\<lparr>row = 5, column = 2\<rparr>, \<lparr>row = 5, column = 0\<rparr>]"
    by simp
  from move_commit [OF w g a m] w g a show ?thesis by simp
qed

end
